theory Spec2Isabelle
  imports Complex_Main "HOL-Library.AList"
begin

section \<open>Values of the brighter-fatter kernel calibration\<close>

text \<open>
  The calibration of \<^verbatim>\<open>brighterFatterKernel.py\<close> stores floats and never computes with
  them in the operations modelled here (the only exception, the clipped mean of the
  detector kernel, is outside this development). A float is therefore a label: the
  rational names the value Python prints, \<open>NaN\<close> is the not-a-number that
  \<^verbatim>\<open>repackCorrelations\<close> writes into its placeholders.
\<close>

datatype pyfloat = Float rat | NaN

text \<open>
  A persisted validity value is whatever the mapping holds: fromDict applies both
  \<^verbatim>\<open>bool(value)\<close> and \<^verbatim>\<open>value is False\<close> to it, and the two differ on every falsy
  value that is not the Python object \<^verbatim>\<open>False\<close>.
\<close>

datatype pyval = PyBool bool | PyInt int | NpBool bool | PyFloat pyfloat

fun truthy :: "pyval \<Rightarrow> bool" where
  "truthy (PyBool b) = b"
| "truthy (PyInt i) = (i \<noteq> 0)"
| "truthy (NpBool b) = b"
| "truthy (PyFloat (Float r)) = (r \<noteq> 0)"
| "truthy (PyFloat NaN) = True"

fun is_False :: "pyval \<Rightarrow> bool" where
  "is_False (PyBool b) = (\<not> b)"
| "is_False v = False"

text \<open>
  Every \<^verbatim>\<open>raise\<close> of the source and every exception of the Python and numpy
  operations it calls is a value. \<open>Unmodelled\<close> is the one outcome that is not an
  exception: it marks an input on which this development does not commit to a result (a
  shape so large that \<^verbatim>\<open>(shape[0] - 1)*(shape[1] - 1)/4\<close> is no longer exact in
  binary64; amplifier kernels of more than two axes).
\<close>

datatype error =
    InconsistentObservations
  | IncorrectObstype
  | UnknownVersion
  | CannotCoerce
  | CannotReshape
  | InhomogeneousShape
  | KeyError
  | IndexError
  | NaNToInteger
  | Unmodelled

definition err_bind :: "error + 'a \<Rightarrow> ('a \<Rightarrow> error + 'b) \<Rightarrow> error + 'b" where
  "err_bind m f = (case m of Inl e \<Rightarrow> Inl e | Inr v \<Rightarrow> f v)"

fun err_map :: "('a \<Rightarrow> error + 'b) \<Rightarrow> 'a list \<Rightarrow> error + 'b list" where
  "err_map f [] = Inr []"
| "err_map f (x # xs) =
     (case f x of
        Inl e \<Rightarrow> Inl e
      | Inr y \<Rightarrow> (case err_map f xs of Inl e \<Rightarrow> Inl e | Inr ys \<Rightarrow> Inr (y # ys)))"

text \<open>
  A Python dict keeps its keys in insertion order; it is an association list with distinct
  keys. \<open>d[k]\<close> raises KeyError on a missing key, \<open>d[k] = v\<close> is \<^const>\<open>AList.update\<close>
  (in place for a key that is there, at the end otherwise).
\<close>

type_synonym 'v dict = "(string \<times> 'v) list"

definition keys :: "'v dict \<Rightarrow> string list" where
  "keys d = map fst d"

definition lookup :: "'v dict \<Rightarrow> string \<Rightarrow> error + 'v" where
  "lookup d k = (case map_of d k of None \<Rightarrow> Inl KeyError | Some v \<Rightarrow> Inr v)"

text \<open>\<^verbatim>\<open>{k: v for k, v in zip(ks, vs)}\<close>: a later pair overwrites an earlier one.\<close>

definition dict_of_zip :: "string list \<Rightarrow> 'v list \<Rightarrow> 'v dict" where
  "dict_of_zip ks vs = fold (\<lambda>(k, v) d. AList.update k v d) (zip ks vs) []"

subsection \<open>numpy arrays\<close>

text \<open>
  An array is its shape and its elements in row-major order. The functions below are the
  numpy calls the source makes, with the ValueError of each.
\<close>

record ndarray =
  dims :: "nat list"
  elems :: "pyfloat list"

definition np_size :: "ndarray \<Rightarrow> nat" where
  "np_size a = length (elems a)"

text \<open>\<^verbatim>\<open>np.array(xs)\<close> of a flat list.\<close>

definition np_array1 :: "pyfloat list \<Rightarrow> ndarray" where
  "np_array1 xs = \<lparr>dims = [length xs], elems = xs\<rparr>"

text \<open>
  \<^verbatim>\<open>np.array(xs)\<close> of a sequence of arrays: the empty sequence gives shape \<open>(0,)\<close>,
  arrays of one shape are stacked along a new leading axis, and arrays of different
  shapes are refused (numpy 1.24 and later).
\<close>

definition np_array :: "ndarray list \<Rightarrow> error + ndarray" where
  "np_array xs =
     (case xs of
        [] \<Rightarrow> Inr \<lparr>dims = [0], elems = []\<rparr>
      | a # as \<Rightarrow>
          if list_all (\<lambda>b. dims b = dims a) as
          then Inr \<lparr>dims = length xs # dims a, elems = concat (map elems xs)\<rparr>
          else Inl InhomogeneousShape)"

text \<open>\<^verbatim>\<open>a.reshape(shape)\<close> for a shape of non-negative dimensions.\<close>

definition np_reshape :: "ndarray \<Rightarrow> nat list \<Rightarrow> error + ndarray" where
  "np_reshape a shp =
     (if prod_list shp = np_size a then Inr \<lparr>dims = shp, elems = elems a\<rparr>
      else Inl CannotReshape)"

text \<open>
  \<^verbatim>\<open>a.reshape(n).tolist()\<close> for a Python integer \<open>n\<close>: a negative \<open>n\<close> asks numpy to
  infer the length, which for one axis is the size of the array.
\<close>

definition np_ravel :: "ndarray \<Rightarrow> int \<Rightarrow> error + pyfloat list" where
  "np_ravel a n =
     (if n < 0 then Inr (elems a)
      else if nat n = np_size a then Inr (elems a)
      else Inl CannotReshape)"

text \<open>\<^verbatim>\<open>np.full((r, c), np.nan)\<close>.\<close>

definition np_full_nan :: "nat \<Rightarrow> nat \<Rightarrow> ndarray" where
  "np_full_nan r c = \<lparr>dims = [r, c], elems = replicate (r * c) NaN\<rparr>"

text \<open>
  The sub-arrays of an array along its first axis: what iterating over it, or indexing it
  with one integer, gives.
\<close>

definition unstack :: "ndarray \<Rightarrow> ndarray list" where
  "unstack a =
     (case dims a of
        [] \<Rightarrow> []
      | n # rest \<Rightarrow>
          map (\<lambda>i. \<lparr>dims = rest,
                    elems = take (prod_list rest) (drop (i * prod_list rest) (elems a))\<rparr>)
              [0..<n])"

text \<open>\<^verbatim>\<open>np.sum(mask)\<close> of a sequence of booleans.\<close>

definition np_sum :: "bool list \<Rightarrow> nat" where
  "np_sum msk = length (filter id msk)"

subsection \<open>The header\<close>

text \<open>
  The metadata header of a calibration, live or persisted: the keys fromDict reads. \<open>LEVEL\<close>,
  \<open>KERNEL_DX\<close> and \<open>KERNEL_DY\<close> are read with \<^verbatim>\<open>get\<close> and a default, so they may be
  absent.
\<close>

record metadata =
  OBSTYPE :: string
  bfk_VERSION :: rat
  LEVEL :: "string option"
  KERNEL_DX :: "nat option"
  KERNEL_DY :: "nat option"

definition calib_OBSTYPE :: string where
  "calib_OBSTYPE = ''bfk''"

definition calib_VERSION :: rat where
  "calib_VERSION = 11 / 10"

subsection \<open>The calibration\<close>

text \<open>
  The attributes of \<^verbatim>\<open>BrighterFatterKernel\<close>. \<open>rawXcorrs[amp]\<close> is a sequence of 2-D
  arrays, as \<^verbatim>\<open>repackCorrelations\<close> builds it; the 3-D array fromDict makes is held as the
  sequence of its sub-arrays. \<open>valid[amp]\<close> is a bool, as fromDict leaves it. The
  dimensions of \<open>shape\<close> are natural numbers, and \<open>level\<close> is a string: the source
  compares it with \<open>'AMP'\<close> only, so any other string stands for \<open>'DETECTOR'\<close> and for
  the \<open>None\<close> of a calibration constructed without a level. \<open>calib_metadata\<close> is
  \<open>self._metadata\<close>, the header that the base class keeps.
\<close>

record calib =
  calib_metadata :: metadata
  level :: string
  shape :: "nat \<times> nat"
  expIdMask :: "bool list dict"
  rawMeans :: "pyfloat list dict"
  rawVariances :: "pyfloat list dict"
  rawXcorrs :: "ndarray list dict"
  badAmps :: "string list"
  gain :: "pyfloat dict"
  noise :: "pyfloat dict"
  meanXcorrs :: "ndarray dict"
  valid :: "bool dict"
  ampKernels :: "ndarray dict"
  detKernels :: "ndarray dict"

text \<open>
  \<^verbatim>\<open>__init__\<close> without a camera: empty containers and the default shape.

  Modelled from the spec: the constructor of the base class \<^verbatim>\<open>IsrCalib\<close>, which makes the
  header, is not among the source files. The header of a new calibration carries the
  identity tag and the schema version of the class, and neither level nor kernel shape.
\<close>

definition init :: "string \<Rightarrow> calib" where
  "init lvl =
     \<lparr>calib_metadata =
        \<lparr>OBSTYPE = calib_OBSTYPE, bfk_VERSION = calib_VERSION, LEVEL = None,
         KERNEL_DX = None, KERNEL_DY = None\<rparr>,
      level = lvl, shape = (17, 17), expIdMask = [], rawMeans = [], rawVariances = [],
      rawXcorrs = [], badAmps = [], gain = [], noise = [], meanXcorrs = [], valid = [],
      ampKernels = [], detKernels = []\<rparr>"

subsection \<open>getLengths\<close>

text \<open>
  \<^verbatim>\<open>int(n / 4)\<close> for a Python integer \<open>n\<close>: true division gives a float, \<open>int\<close> truncates
  it towards zero. The quotient is exact while \<open>|n| \<le> 2^53\<close>.
\<close>

definition int_truediv4 :: "int \<Rightarrow> error + int" where
  "int_truediv4 n =
     (if \<bar>n\<bar> \<le> 2 ^ 53 then Inr (if n < 0 then - ((- n) div 4) else n div 4)
      else Inl Unmodelled)"

definition getLengths :: "calib \<Rightarrow> error + (nat \<times> int \<times> nat)" where
  "getLengths c =
     (let kernelLength = fst (shape c) * snd (shape c) in
      err_bind (int_truediv4 ((int (fst (shape c)) - 1) * (int (snd (shape c)) - 1)))
        (\<lambda>smallLength.
           if level c = ''AMP'' then
             (let nObservations = remdups (map (\<lambda>(amp, xs). length xs) (rawMeans c)) in
              if length nObservations \<noteq> 1 then Inl InconsistentObservations
              else Inr (kernelLength, smallLength, hd nObservations))
           else Inr (kernelLength, smallLength, 0)))"

subsection \<open>repackCorrelations\<close>

text \<open>
  The loop of \<^verbatim>\<open>repackCorrelations\<close>: \<open>idx\<close> is the read cursor, \<open>acc\<close> the list
  \<^verbatim>\<open>repackedCorrelations\<close>. \<open>self.rawXcorrs[amp]\<close> is read only at a true mask value and
  the shape only at a false one, so each can fail there and nowhere else.
\<close>

fun repack_loop ::
  "bool list \<Rightarrow> error + ndarray list \<Rightarrow> nat list \<Rightarrow> nat \<Rightarrow> ndarray list
     \<Rightarrow> error + ndarray list" where
  "repack_loop [] xs shp idx acc = Inr acc"
| "repack_loop (maskValue # msk) xs shp idx acc =
     (if maskValue then
        (case xs of
           Inl e \<Rightarrow> Inl e
         | Inr ys \<Rightarrow>
             if idx < length ys then repack_loop msk xs shp (idx + 1) (acc @ [ys ! idx])
             else Inl IndexError)
      else
        (if 2 < length shp
         then repack_loop msk xs shp idx (acc @ [np_full_nan (shp ! 1) (shp ! 2)])
         else Inl IndexError))"

text \<open>
  The method mutates \<open>self.rawXcorrs\<close>: it returns the calibration after the call, and
  the calibration as it was when it raises (the assignment is its last statement).
\<close>

definition repackCorrelations :: "calib \<Rightarrow> string \<Rightarrow> nat list \<Rightarrow> (error + unit) \<times> calib" where
  "repackCorrelations c amp correlationShape =
     (case lookup (expIdMask c) amp of
        Inl e \<Rightarrow> (Inl e, c)
      | Inr msk \<Rightarrow>
          (case repack_loop msk (lookup (rawXcorrs c) amp) correlationShape 0 [] of
             Inl e \<Rightarrow> (Inl e, c)
           | Inr repackedCorrelations \<Rightarrow>
               (Inr (), c\<lparr>rawXcorrs := AList.update amp repackedCorrelations (rawXcorrs c)\<rparr>)))"

subsection \<open>The persisted mapping\<close>

text \<open>
  \<^verbatim>\<open>updateMetadata\<close> (lines 132 to 150) writes \<open>LEVEL\<close>, \<open>KERNEL_DX\<close> and
  \<open>KERNEL_DY\<close> into the header of the calibration and calls the method of the base class.

  Modelled from the spec: \<^verbatim>\<open>IsrCalib.updateMetadata\<close>, \<^verbatim>\<open>IsrCalib.setMetadata\<close> and
  \<^verbatim>\<open>IsrCalib.getMetadata\<close>, the base class methods that keep the header, are not among
  the source files. Updating the header writes the identity tag and the schema version
  of the class into it, setting it replaces it, and getting it returns it.
\<close>

definition updateMetadata :: "calib \<Rightarrow> calib" where
  "updateMetadata c =
     c\<lparr>calib_metadata :=
         (calib_metadata c)\<lparr>LEVEL := Some (level c),
                             KERNEL_DX := Some (fst (shape c)),
                             KERNEL_DY := Some (snd (shape c)),
                             OBSTYPE := calib_OBSTYPE,
                             bfk_VERSION := calib_VERSION\<rparr>\<rparr>"

definition setMetadata :: "calib \<Rightarrow> metadata \<Rightarrow> calib" where
  "setMetadata c md = c\<lparr>calib_metadata := md\<rparr>"

definition getMetadata :: "calib \<Rightarrow> metadata" where
  "getMetadata c = calib_metadata c"

text \<open>
  The dictionary of toDict and fromDict. A version 1.0 mapping has \<open>means\<close> and
  \<open>variances\<close>, a version 1.1 mapping \<open>expIdMask\<close>, \<open>rawMeans\<close> and \<open>rawVariances\<close>;
  reading an entry that is not there raises KeyError.
\<close>

record mapping =
  d_metadata :: metadata
  d_expIdMask :: "bool list dict option"
  d_rawMeans :: "pyfloat list dict option"
  d_rawVariances :: "pyfloat list dict option"
  d_means :: "pyfloat list dict option"
  d_variances :: "pyfloat list dict option"
  d_rawXcorrs :: "pyfloat list dict"
  d_badAmps :: "string list"
  d_gain :: "pyfloat dict"
  d_noise :: "pyfloat dict"
  d_meanXcorrs :: "pyfloat list dict"
  d_ampKernels :: "pyfloat list dict"
  d_valid :: "pyval dict"
  d_detKernels :: "pyfloat list dict"

definition entry :: "'a option \<Rightarrow> error + 'a" where
  "entry x = (case x of None \<Rightarrow> Inl KeyError | Some v \<Rightarrow> Inr v)"

subsection \<open>fromDict\<close>

text \<open>
  \<^verbatim>\<open>int(np.sqrt(smallLength))\<close>: the square root of a negative number is NaN, which
  \<open>int\<close> refuses; otherwise the root is truncated. (\<open>smallLength\<close> is at most \<open>2^51\<close>
  here, where the truncated float root is the integer root.)
\<close>

fun sqrt_down :: "nat \<Rightarrow> nat \<Rightarrow> nat" where
  "sqrt_down n 0 = 0"
| "sqrt_down n (Suc r) = (if Suc r * Suc r \<le> n then Suc r else sqrt_down n r)"

definition int_sqrt :: "int \<Rightarrow> error + nat" where
  "int_sqrt k = (if k < 0 then Inl NaNToInteger else Inr (sqrt_down (nat k) (nat k)))"

text \<open>The branch on the schema version (lines 265 to 285).\<close>

definition fromDict_version ::
  "mapping \<Rightarrow> error + (bool list dict \<times> pyfloat list dict \<times> pyfloat list dict)" where
  "fromDict_version d =
     (let calibVersion = bfk_VERSION (d_metadata d) in
      if calibVersion = 1 then
        err_bind (entry (d_means d)) (\<lambda>means.
        err_bind (entry (d_variances d)) (\<lambda>variances.
          Inr (map (\<lambda>(amp, xs). (amp, replicate (length xs) True)) means, means, variances)))
      else if calibVersion = 11 / 10 then
        err_bind (entry (d_expIdMask d)) (\<lambda>msk.
        err_bind (entry (d_rawMeans d)) (\<lambda>means.
        err_bind (entry (d_rawVariances d)) (\<lambda>variances.
          Inr (msk, means, variances))))
      else Inl UnknownVersion)"

text \<open>\<^verbatim>\<open>np.array(xs).reshape(shp)\<close> for a flat list \<open>xs\<close>.\<close>

definition reshaped :: "pyfloat list \<Rightarrow> nat list \<Rightarrow> error + ndarray" where
  "reshaped xs shp = np_reshape (np_array1 xs) shp"

definition fromDict :: "mapping \<Rightarrow> error + calib" where
  "fromDict d =
     (let md = d_metadata d in
      if calib_OBSTYPE \<noteq> OBSTYPE md then Inl IncorrectObstype
      else
        let lvl = (case LEVEL md of None \<Rightarrow> ''AMP'' | Some l \<Rightarrow> l);
            shp = (case KERNEL_DX md of None \<Rightarrow> 0 | Some x \<Rightarrow> x,
                   case KERNEL_DY md of None \<Rightarrow> 0 | Some y \<Rightarrow> y)
        in
        err_bind (fromDict_version d) (\<lambda>(msk, means, variances).
        let calib = (setMetadata (init lvl) md)\<lparr>shape := shp, expIdMask := msk,
                                                  rawMeans := means,
                                                  rawVariances := variances\<rparr> in
        err_bind (getLengths calib) (\<lambda>(kernelLength, smallLength, nObs).
        err_bind (int_sqrt smallLength) (\<lambda>smallShapeSide.
        err_bind (err_map (\<lambda>(amp, xs).
                    err_bind (reshaped xs [nObs, smallShapeSide, smallShapeSide])
                      (\<lambda>a. Inr (amp, unstack a)))
                  (d_rawXcorrs d)) (\<lambda>rawXcorrs'.
        err_bind (err_map (\<lambda>amp.
                    err_bind (lookup (d_meanXcorrs d) amp) (\<lambda>xs.
                    err_bind (reshaped xs [fst shp, snd shp]) (\<lambda>a. Inr (amp, a))))
                  (keys (d_rawXcorrs d))) (\<lambda>meanXcorrs'.
        err_bind (err_map (\<lambda>(amp, xs).
                    err_bind (reshaped xs [fst shp, snd shp]) (\<lambda>a. Inr (amp, a)))
                  (d_ampKernels d)) (\<lambda>ampKernels'.
        err_bind (err_map (\<lambda>(det, xs).
                    err_bind (reshaped xs [fst shp, snd shp]) (\<lambda>a. Inr (det, a)))
                  (d_detKernels d)) (\<lambda>detKernels'.
          Inr (updateMetadata
                 (calib\<lparr>rawXcorrs := rawXcorrs',
                        gain := d_gain d,
                        noise := d_noise d,
                        meanXcorrs := meanXcorrs',
                        ampKernels := ampKernels',
                        valid := map (\<lambda>(amp, v). (amp, truthy v)) (d_valid d),
                        badAmps := map fst (filter (\<lambda>(amp, v). is_False v) (d_valid d)),
                        detKernels := detKernels'\<rparr>))))))))))"

subsection \<open>toDict\<close>

text \<open>
  The check that toDict and toTable both make for an amplifier before they flatten its
  correlations (lines 339 to 347 and 484 to 492): a sequence whose length is not \<open>nObs\<close>
  is repacked when its length is the number of true mask values, and refused otherwise.
\<close>

definition coerceCorrelations :: "nat \<Rightarrow> calib \<Rightarrow> string \<Rightarrow> (error + unit) \<times> calib" where
  "coerceCorrelations nObs c amp =
     (case lookup (rawXcorrs c) amp of
        Inl e \<Rightarrow> (Inl e, c)
      | Inr xs \<Rightarrow>
          (case np_array xs of
             Inl e \<Rightarrow> (Inl e, c)
           | Inr a \<Rightarrow>
               (let correlationShape = dims a in
                if nObs \<noteq> hd correlationShape then
                  (case lookup (expIdMask c) amp of
                     Inl e \<Rightarrow> (Inl e, c)
                   | Inr msk \<Rightarrow>
                       if hd correlationShape = np_sum msk
                       then repackCorrelations c amp correlationShape
                       else (Inl CannotCoerce, c))
                else (Inr (), c))))"

fun toDict_loop :: "nat \<Rightarrow> string list \<Rightarrow> calib \<Rightarrow> (error + unit) \<times> calib" where
  "toDict_loop nObs [] c = (Inr (), c)"
| "toDict_loop nObs (amp # amps) c =
     (case coerceCorrelations nObs c amp of
        (Inl e, c') \<Rightarrow> (Inl e, c')
      | (Inr u, c') \<Rightarrow> toDict_loop nObs amps c')"

text \<open>\<^verbatim>\<open>np.array(xs).reshape(n).tolist()\<close> for a sequence of arrays \<open>xs\<close>.\<close>

definition flattened :: "ndarray list \<Rightarrow> int \<Rightarrow> error + pyfloat list" where
  "flattened xs n = err_bind (np_array xs) (\<lambda>a. np_ravel a n)"

text \<open>
  toDict returns the dictionary, or the exception, together with the calibration as the
  call leaves it. Its first statement is \<^verbatim>\<open>self.updateMetadata()\<close>.
\<close>

definition toDict :: "calib \<Rightarrow> (error + mapping) \<times> calib" where
  "toDict self =
     (let c = updateMetadata self in
      case getLengths c of
        Inl e \<Rightarrow> (Inl e, c)
      | Inr (kernelLength, smallLength, nObs) \<Rightarrow>
          (case toDict_loop nObs (keys (rawXcorrs c)) c of
             (Inl e, c') \<Rightarrow> (Inl e, c')
           | (Inr u, c') \<Rightarrow>
               (err_bind (err_map (\<lambda>(amp, xs).
                            err_bind (flattened xs (int nObs * smallLength))
                              (\<lambda>ys. Inr (amp, ys)))
                          (rawXcorrs c')) (\<lambda>rawXcorrs'.
                err_bind (err_map (\<lambda>(amp, a).
                            err_bind (np_ravel a (int kernelLength)) (\<lambda>ys. Inr (amp, ys)))
                          (meanXcorrs c')) (\<lambda>meanXcorrs'.
                err_bind (err_map (\<lambda>(amp, a).
                            err_bind (np_ravel a (int kernelLength)) (\<lambda>ys. Inr (amp, ys)))
                          (ampKernels c')) (\<lambda>ampKernels'.
                err_bind (err_map (\<lambda>(det, a).
                            err_bind (np_ravel a (int kernelLength)) (\<lambda>ys. Inr (det, ys)))
                          (detKernels c')) (\<lambda>detKernels'.
                  Inr \<lparr>d_metadata = getMetadata c,
                       d_expIdMask = Some (expIdMask c),
                       d_rawMeans = Some (rawMeans c),
                       d_rawVariances = Some (rawVariances c),
                       d_means = None,
                       d_variances = None,
                       d_rawXcorrs = rawXcorrs',
                       d_badAmps = badAmps c',
                       d_gain = gain c',
                       d_noise = noise c',
                       d_meanXcorrs = meanXcorrs',
                       d_ampKernels = ampKernels',
                       d_valid = map (\<lambda>(amp, v). (amp, PyBool v)) (valid c'),
                       d_detKernels = detKernels'\<rparr>)))),
                c')))"

subsection \<open>The tables\<close>

text \<open>
  An astropy table is its header and its columns. The amplifier table of a version 1.1
  calibration has \<open>EXP_ID_MASK\<close>, \<open>RAW_MEANS\<close> and \<open>RAW_VARIANCES\<close>, that of a version
  1.0 calibration \<open>MEANS\<close> and \<open>VARIANCES\<close>; reading a column that is not there raises
  KeyError. A table list is the amplifier table and, when there are detector kernels, the
  detector table. Building a table from its columns is taken to succeed.
\<close>

record amp_table =
  meta :: metadata
  AMPLIFIER :: "string list"
  EXP_ID_MASK :: "bool list list option"
  RAW_MEANS :: "pyfloat list list option"
  RAW_VARIANCES :: "pyfloat list list option"
  MEANS :: "pyfloat list list option"
  VARIANCES :: "pyfloat list list option"
  RAW_XCORRS :: "pyfloat list list"
  GAIN :: "pyfloat list"
  NOISE :: "pyfloat list"
  MEAN_XCORRS :: "pyfloat list list"
  KERNEL :: "pyfloat list list"
  VALID :: "pyval list"

record det_table =
  det_meta :: metadata
  DETECTOR :: "string list"
  det_KERNEL :: "pyfloat list list"

type_synonym table_list = "amp_table \<times> det_table option"

subsection \<open>fromTable\<close>

definition fromTable :: "table_list \<Rightarrow> error + calib" where
  "fromTable tableList =
     (let ampTable = fst tableList;
          metadata = meta ampTable;
          amps = AMPLIFIER ampTable;
          calibVersion = bfk_VERSION metadata
      in
      err_bind
        (if calibVersion = 1 then
           err_bind (entry (MEANS ampTable)) (\<lambda>rawMeanList.
           err_bind (entry (VARIANCES ampTable)) (\<lambda>rawVarianceList.
             Inr (None, None, None,
                  Some (dict_of_zip amps rawMeanList), Some (dict_of_zip amps rawVarianceList))))
         else if calibVersion = 11 / 10 then
           err_bind (entry (EXP_ID_MASK ampTable)) (\<lambda>expIdMaskList.
           err_bind (entry (RAW_MEANS ampTable)) (\<lambda>rawMeanList.
           err_bind (entry (RAW_VARIANCES ampTable)) (\<lambda>rawVarianceList.
             Inr (Some (dict_of_zip amps expIdMaskList), Some (dict_of_zip amps rawMeanList),
                  Some (dict_of_zip amps rawVarianceList), None, None))))
         else Inl UnknownVersion)
        (\<lambda>(msk, rawMeans', rawVariances', means, variances).
           let valid' = dict_of_zip amps (map (\<lambda>v. PyBool (truthy v)) (VALID ampTable)) in
           fromDict
             \<lparr>d_metadata = metadata,
              d_expIdMask = msk,
              d_rawMeans = rawMeans',
              d_rawVariances = rawVariances',
              d_means = means,
              d_variances = variances,
              d_rawXcorrs = dict_of_zip amps (RAW_XCORRS ampTable),
              d_badAmps = map fst (filter (\<lambda>(amp, v). is_False v) valid'),
              d_gain = dict_of_zip amps (GAIN ampTable),
              d_noise = dict_of_zip amps (NOISE ampTable),
              d_meanXcorrs = dict_of_zip amps (MEAN_XCORRS ampTable),
              d_ampKernels = dict_of_zip amps (KERNEL ampTable),
              d_valid = valid',
              d_detKernels =
                (case snd tableList of
                   None \<Rightarrow> []
                 | Some detTable \<Rightarrow> dict_of_zip (DETECTOR detTable) (det_KERNEL detTable))\<rparr>))"

subsection \<open>toTable\<close>

text \<open>
  What one pass of the loop over \<open>self.rawMeans.keys()\<close> appends to the ten column
  lists.
\<close>

record row =
  r_amp :: string
  r_expIdMask :: "bool list"
  r_rawMean :: "pyfloat list"
  r_rawVariance :: "pyfloat list"
  r_rawXcorrs :: "pyfloat list"
  r_gain :: pyfloat
  r_noise :: pyfloat
  r_meanXcorrs :: "pyfloat list"
  r_kernel :: "pyfloat list"
  r_valid :: pyval

definition toTable_row ::
  "nat \<Rightarrow> int \<Rightarrow> nat \<Rightarrow> calib \<Rightarrow> string \<Rightarrow> (error + row) \<times> calib" where
  "toTable_row kernelLength smallLength nObs c amp =
     (case err_bind (lookup (expIdMask c) amp) (\<lambda>msk.
           err_bind (lookup (rawMeans c) amp) (\<lambda>means.
           err_bind (lookup (rawVariances c) amp) (\<lambda>variances. Inr (msk, means, variances)))) of
        Inl e \<Rightarrow> (Inl e, c)
      | Inr (msk, means, variances) \<Rightarrow>
          (case coerceCorrelations nObs c amp of
             (Inl e, c') \<Rightarrow> (Inl e, c')
           | (Inr u, c') \<Rightarrow>
               (err_bind (lookup (rawXcorrs c') amp) (\<lambda>xs.
                err_bind (flattened xs (int nObs * smallLength)) (\<lambda>xcorrs.
                err_bind (lookup (gain c') amp) (\<lambda>g.
                err_bind (lookup (noise c') amp) (\<lambda>n.
                err_bind (lookup (meanXcorrs c') amp) (\<lambda>mx.
                err_bind (np_ravel mx (int kernelLength)) (\<lambda>mxs.
                err_bind (lookup (ampKernels c') amp) (\<lambda>k.
                err_bind (np_ravel k (int kernelLength)) (\<lambda>ks.
                err_bind (lookup (valid c') amp) (\<lambda>v.
                  Inr \<lparr>r_amp = amp, r_expIdMask = msk, r_rawMean = means,
                       r_rawVariance = variances, r_rawXcorrs = xcorrs, r_gain = g,
                       r_noise = n, r_meanXcorrs = mxs, r_kernel = ks,
                       r_valid = PyInt (if v \<and> \<not> (amp \<in> set (badAmps c')) then 1 else 0)\<rparr>
                ))))))))),
                c')))"

fun toTable_loop ::
  "nat \<Rightarrow> int \<Rightarrow> nat \<Rightarrow> string list \<Rightarrow> calib \<Rightarrow> row list \<Rightarrow> (error + row list) \<times> calib" where
  "toTable_loop kernelLength smallLength nObs [] c rows = (Inr rows, c)"
| "toTable_loop kernelLength smallLength nObs (amp # amps) c rows =
     (case toTable_row kernelLength smallLength nObs c amp of
        (Inl e, c') \<Rightarrow> (Inl e, c')
      | (Inr r, c') \<Rightarrow> toTable_loop kernelLength smallLength nObs amps c' (rows @ [r]))"

definition toTable :: "calib \<Rightarrow> (error + table_list) \<times> calib" where
  "toTable self =
     (let c = updateMetadata self in
      case getLengths c of
        Inl e \<Rightarrow> (Inl e, c)
      | Inr (kernelLength, smallLength, nObs) \<Rightarrow>
          (case (if level c = ''AMP''
                 then toTable_loop kernelLength smallLength nObs (keys (rawMeans c)) c []
                 else (Inr [], c)) of
             (Inl e, c') \<Rightarrow> (Inl e, c')
           | (Inr rows, c') \<Rightarrow>
               (let ampTable =
                      \<lparr>meta = getMetadata c',
                       AMPLIFIER = map r_amp rows,
                       EXP_ID_MASK = Some (map r_expIdMask rows),
                       RAW_MEANS = Some (map r_rawMean rows),
                       RAW_VARIANCES = Some (map r_rawVariance rows),
                       MEANS = None,
                       VARIANCES = None,
                       RAW_XCORRS = map r_rawXcorrs rows,
                       GAIN = map r_gain rows,
                       NOISE = map r_noise rows,
                       MEAN_XCORRS = map r_meanXcorrs rows,
                       KERNEL = map r_kernel rows,
                       VALID = map r_valid rows\<rparr>
                in
                if detKernels c' \<noteq> [] then
                  (err_bind (err_map (\<lambda>(det, a). np_ravel a (int kernelLength))
                              (detKernels c')) (\<lambda>kernelList.
                     Inr (ampTable,
                          Some \<lparr>det_meta = getMetadata c', DETECTOR = keys (detKernels c'),
                                det_KERNEL = kernelList\<rparr>)),
                   c')
                else (Inr (ampTable, None), c'))))"

subsection \<open>makeDetectorKernelFromAmpwiseKernels\<close>

text \<open>
  The clipped mean \<^verbatim>\<open>afwMath.makeStatistics(values, afwMath.MEANCLIP, sctrl).getValue()\<close>
  belongs to another package; it is the parameter \<open>meanclip\<close>.

  \<open>inKernels\<close> has shape \<open>(nAmps, r, c)\<close>, and \<^verbatim>\<open>np.transpose\<close> reverses the axes, so
  \<open>averagingList\<close> has shape \<open>(c, r, nAmps)\<close> and \<open>averagingList[i, j]\<close> holds
  \<open>inKernels[k, j, i]\<close> for every amplifier \<open>k\<close>; it raises IndexError unless \<open>i < c\<close> and
  \<open>j < r\<close>. The loops run over the shape \<open>(r, c)\<close> of \<open>avgKernel\<close>, rows first.
  With no kernel, \<open>inKernels[0]\<close> raises; with kernels of one axis, the second loop
  bound does.
\<close>

definition makeDetectorKernelFromAmpwiseKernels ::
  "(pyfloat list \<Rightarrow> pyfloat) \<Rightarrow> calib \<Rightarrow> string \<Rightarrow> string list \<Rightarrow> (error + unit) \<times> calib" where
  "makeDetectorKernelFromAmpwiseKernels meanclip c detectorName ampsToExclude =
     (case np_array (map snd (filter (\<lambda>(amp, a). amp \<notin> set ampsToExclude) (ampKernels c))) of
        Inl e \<Rightarrow> (Inl e, c)
      | Inr inKernels \<Rightarrow>
          (case dims inKernels of
             [nAmps, r, cols] \<Rightarrow>
               (case err_map
                       (\<lambda>(i, j).
                          if i < cols \<and> j < r
                          then Inr (meanclip
                                     (map (\<lambda>k. elems inKernels ! (k * (r * cols) + j * cols + i))
                                        [0..<nAmps]))
                          else Inl IndexError)
                       (List.product [0..<r] [0..<cols]) of
                  Inl e \<Rightarrow> (Inl e, c)
                | Inr avgKernel \<Rightarrow>
                    (Inr (),
                     c\<lparr>detKernels :=
                          AList.update detectorName \<lparr>dims = [r, cols], elems = avgKernel\<rparr>
                            (detKernels c)\<rparr>))
           | [nAmps, r] \<Rightarrow>
               if r = 0
               then (Inr (),
                     c\<lparr>detKernels :=
                          AList.update detectorName \<lparr>dims = [0], elems = []\<rparr> (detKernels c)\<rparr>)
               else (Inl IndexError, c)
           | [nAmps] \<Rightarrow> (Inl IndexError, c)
           | _ \<Rightarrow> (Inl Unmodelled, c)))"

subsection \<open>The round trip\<close>

text \<open>\<^verbatim>\<open>fromDict(x.toDict())\<close>.\<close>

definition roundTrip :: "calib \<Rightarrow> error + calib" where
  "roundTrip x = err_bind (fst (toDict x)) fromDict"



section \<open>Example calibrations\<close>

text \<open>The header of a calibration of this level and kernel shape, once updated.\<close>

definition header :: "string \<Rightarrow> nat \<times> nat \<Rightarrow> metadata" where
  "header lvl shp =
     \<lparr>OBSTYPE = ''bfk'', bfk_VERSION = 11 / 10, LEVEL = Some lvl,
      KERNEL_DX = Some (fst shp), KERNEL_DY = Some (snd shp)\<rparr>"

text \<open>A 1 by 1 correlation array, and a kernel array with one value everywhere.\<close>

definition small :: "rat \<Rightarrow> ndarray" where
  "small v = \<lparr>dims = [1, 1], elems = [Float v]\<rparr>"

definition kernel :: "nat \<Rightarrow> nat \<Rightarrow> rat \<Rightarrow> ndarray" where
  "kernel r c v = \<lparr>dims = [r, c], elems = replicate (r * c) (Float v)\<rparr>"

text \<open>Two amplifiers with \<open>n\<close> and \<open>m\<close> observations, and the default shape.\<close>

definition observed :: "string \<Rightarrow> nat \<Rightarrow> nat \<Rightarrow> calib" where
  "observed lvl n m =
     (init lvl)\<lparr>rawMeans := [(''C00'', replicate n (Float 1)), (''C01'', replicate m (Float 1))]\<rparr>"

text \<open>
  Five observations of which the second and the fourth were rejected, and the three
  correlations that are left.
\<close>

definition repack_example :: calib where
  "repack_example =
     (init ''AMP'')\<lparr>shape := (3, 3),
       expIdMask := [(''C00'', [True, False, True, False, True])],
       rawXcorrs := [(''C00'', [small 10, small 20, small 30])]\<rparr>"

text \<open>A version 1.0 mapping of one amplifier with two observations and a 3 by 3 kernel.\<close>

definition legacy_example :: mapping where
  "legacy_example =
     \<lparr>d_metadata = \<lparr>OBSTYPE = ''bfk'', bfk_VERSION = 1, LEVEL = Some ''AMP'',
                     KERNEL_DX = Some 3, KERNEL_DY = Some 3\<rparr>,
      d_expIdMask = None, d_rawMeans = None, d_rawVariances = None,
      d_means = Some [(''A'', [Float 1, Float 2])],
      d_variances = Some [(''A'', [Float (1 / 10), Float (2 / 10)])],
      d_rawXcorrs = [(''A'', [Float 7, Float 8])],
      d_badAmps = [],
      d_gain = [(''A'', Float (3 / 2))],
      d_noise = [(''A'', Float 5)],
      d_meanXcorrs = [(''A'', replicate 9 (Float 0))],
      d_ampKernels = [(''A'', replicate 9 (Float 1))],
      d_valid = [(''A'', PyBool True)],
      d_detKernels = []\<rparr>"

text \<open>The same mapping under another identity tag and with version 2.0.\<close>

definition foreign_example :: mapping where
  "foreign_example =
     legacy_example\<lparr>d_metadata := (d_metadata legacy_example)\<lparr>OBSTYPE := ''ptc'',
                                                                bfk_VERSION := 2\<rparr>\<rparr>"

text \<open>
  The same mapping with three persisted validity values: the integer 0, numpy's false and
  the Python object \<open>False\<close>.
\<close>

definition falsy_example :: mapping where
  "falsy_example =
     legacy_example\<lparr>d_valid := [(''A'', PyInt 0), (''B'', NpBool False), (''C'', PyBool False)]\<rparr>"

text \<open>The legacy mapping, and an empty amplifier table, tagged with version 2.0.\<close>

definition unknown_version_example :: mapping where
  "unknown_version_example =
     legacy_example\<lparr>d_metadata := (d_metadata legacy_example)\<lparr>bfk_VERSION := 2\<rparr>\<rparr>"

definition unknown_version_table :: table_list where
  "unknown_version_table =
     (\<lparr>meta = d_metadata unknown_version_example, AMPLIFIER = [],
       EXP_ID_MASK = Some [], RAW_MEANS = Some [], RAW_VARIANCES = Some [],
       MEANS = None, VARIANCES = None, RAW_XCORRS = [], GAIN = [], NOISE = [],
       MEAN_XCORRS = [], KERNEL = [], VALID = []\<rparr>, None)"

text \<open>
  One amplifier with three observations, the second rejected, and the two correlations
  that are left: the compacted form that toDict and toTable repack.
\<close>

definition compacted_example :: calib where
  "compacted_example =
     \<lparr>calib_metadata = header ''AMP'' (3, 3),
      level = ''AMP'', shape = (3, 3),
      expIdMask = [(''A'', [True, False, True])],
      rawMeans = [(''A'', [Float 1, Float 2, Float 3])],
      rawVariances = [(''A'', [Float (1 / 10), Float (2 / 10), Float (3 / 10)])],
      rawXcorrs = [(''A'', [small 10, small 20])],
      badAmps = [],
      gain = [(''A'', Float (3 / 2))],
      noise = [(''A'', Float 5)],
      meanXcorrs = [(''A'', kernel 3 3 0)],
      valid = [(''A'', True)],
      ampKernels = [(''A'', kernel 3 3 1)],
      detKernels = []\<rparr>"

text \<open>
  Three amplifiers with two observations each: \<open>A\<close> is valid, \<open>B\<close> is valid and listed
  as a bad amplifier, \<open>C\<close> is not valid and not listed.
\<close>

definition flagged_example :: calib where
  "flagged_example =
     \<lparr>calib_metadata = header ''AMP'' (3, 3),
      level = ''AMP'', shape = (3, 3),
      expIdMask = map (\<lambda>amp. (amp, [True, True])) [''A'', ''B'', ''C''],
      rawMeans = map (\<lambda>amp. (amp, [Float 1, Float 2])) [''A'', ''B'', ''C''],
      rawVariances = map (\<lambda>amp. (amp, [Float 3, Float 4])) [''A'', ''B'', ''C''],
      rawXcorrs = map (\<lambda>amp. (amp, [small 10, small 20])) [''A'', ''B'', ''C''],
      badAmps = [''B''],
      gain = map (\<lambda>amp. (amp, Float (3 / 2))) [''A'', ''B'', ''C''],
      noise = map (\<lambda>amp. (amp, Float 5)) [''A'', ''B'', ''C''],
      meanXcorrs = map (\<lambda>amp. (amp, kernel 3 3 0)) [''A'', ''B'', ''C''],
      valid = [(''A'', True), (''B'', True), (''C'', False)],
      ampKernels = map (\<lambda>amp. (amp, kernel 3 3 1)) [''A'', ''B'', ''C''],
      detKernels = []\<rparr>"

text \<open>A version 1.1 table of one amplifier whose validity is the integer 0.\<close>

definition falsy_table :: table_list where
  "falsy_table =
     (\<lparr>meta = \<lparr>OBSTYPE = ''bfk'', bfk_VERSION = 11 / 10, LEVEL = Some ''AMP'',
               KERNEL_DX = Some 3, KERNEL_DY = Some 3\<rparr>,
       AMPLIFIER = [''A''],
       EXP_ID_MASK = Some [[True, True]],
       RAW_MEANS = Some [[Float 1, Float 2]],
       RAW_VARIANCES = Some [[Float (1 / 10), Float (2 / 10)]],
       MEANS = None, VARIANCES = None,
       RAW_XCORRS = [[Float 7, Float 8]],
       GAIN = [Float (3 / 2)], NOISE = [Float 5],
       MEAN_XCORRS = [replicate 9 (Float 0)],
       KERNEL = [replicate 9 (Float 1)],
       VALID = [PyInt 0]\<rparr>, None)"

text \<open>The compacted calibration with nothing rejected and all three correlations.\<close>

definition complete_example :: calib where
  "complete_example =
     compacted_example\<lparr>expIdMask := [(''A'', [True, True, True])],
                        rawXcorrs := [(''A'', [small 10, small 20, small 30])]\<rparr>"


text \<open>The complete calibration with the header of a new calibration.\<close>

definition stale_example :: calib where
  "stale_example = complete_example\<lparr>calib_metadata := calib_metadata (init ''AMP'')\<rparr>"


text \<open>
  Five amplifiers whose kernels are equal but for the last, which is 1000 larger at every
  coordinate: first with kernels of 3 by 4, then with kernels of 3 by 3 whose element at
  row \<open>i\<close> and column \<open>j\<close> is \<open>3 i + j\<close>.
\<close>

definition outlier_example :: calib where
  "outlier_example =
     (init ''AMP'')\<lparr>shape := (3, 4),
       ampKernels := [(''C00'', kernel 3 4 1), (''C01'', kernel 3 4 1), (''C02'', kernel 3 4 1),
                      (''C03'', kernel 3 4 1), (''C04'', kernel 3 4 1001)]\<rparr>"

definition ramp :: "rat \<Rightarrow> ndarray" where
  "ramp v = \<lparr>dims = [3, 3], elems = map (\<lambda>k. Float (v + of_nat k)) [0..<9]\<rparr>"

definition skew_example :: calib where
  "skew_example =
     (init ''AMP'')\<lparr>shape := (3, 3),
       ampKernels := [(''C00'', ramp 0), (''C01'', ramp 0), (''C02'', ramp 0),
                      (''C03'', ramp 0), (''C04'', ramp 1000)]\<rparr>"

section \<open>Notions used in the statements and proofs\<close>

text \<open>
  \<open>r\<close> is the sequence \<open>xs\<close> repacked under the mask: as long as the mask, with the
  elements of \<open>xs\<close> in their order at the true positions (at position \<open>i\<close> the element
  whose index is the number of true entries before \<open>i\<close>) and an array of \<open>d1\<close> by \<open>d2\<close>
  NaN at every false position.
\<close>

definition repacked :: "bool list \<Rightarrow> ndarray list \<Rightarrow> nat \<Rightarrow> nat \<Rightarrow> ndarray list \<Rightarrow> bool" where
  "repacked msk xs d1 d2 r \<longleftrightarrow>
     length r = length msk
   \<and> (\<forall>i<length msk.
         r ! i = (if msk ! i then xs ! np_sum (take i msk)
                  else \<lparr>dims = [d1, d2], elems = replicate (d1 * d2) NaN\<rparr>))"

text \<open>
  \<open>r\<close> is what repacking makes of \<open>rawXcorrs[amp]\<close> of the calibration \<open>c\<close> with \<open>n\<close>
  observations: the sequence is not \<open>n\<close> long, it is as long as its mask has true
  entries, and \<open>r\<close> is the sequence repacked, with placeholders of the shape of its
  arrays.
\<close>

definition repacked_entry :: "calib \<Rightarrow> nat \<Rightarrow> string \<Rightarrow> ndarray list \<Rightarrow> bool" where
  "repacked_entry c n amp r \<longleftrightarrow>
     (\<exists>xs msk a. lookup (rawXcorrs c) amp = Inr xs \<and> lookup (expIdMask c) amp = Inr msk
        \<and> np_array xs = Inr a \<and> length xs \<noteq> n \<and> length xs = np_sum msk
        \<and> repacked msk xs (dims a ! 1) (dims a ! 2) r)"

text \<open>
  The state \<open>c'\<close> of an export of \<open>c\<close>: every sequence of \<open>rawXcorrs\<close> is as it was or
  is repacked; and those of the amplifiers in \<open>V\<close>, which the export has passed, are
  repacked if they were not \<open>n\<close> long.
\<close>

definition repacks :: "calib \<Rightarrow> nat \<Rightarrow> calib \<Rightarrow> bool" where
  "repacks c n c' \<longleftrightarrow>
     (\<forall>amp. lookup (rawXcorrs c') amp = lookup (rawXcorrs c) amp
          \<or> (\<exists>r. lookup (rawXcorrs c') amp = Inr r \<and> repacked_entry c n amp r))"

definition repacked_all :: "calib \<Rightarrow> nat \<Rightarrow> calib \<Rightarrow> string set \<Rightarrow> bool" where
  "repacked_all c n c' V \<longleftrightarrow>
     (\<forall>amp\<in>V. \<forall>xs. lookup (rawXcorrs c) amp = Inr xs \<longrightarrow> length xs \<noteq> n \<longrightarrow>
        (\<exists>r. lookup (rawXcorrs c') amp = Inr r \<and> repacked_entry c n amp r))"


text \<open>The second calibration is the first up to its \<open>rawXcorrs\<close>.\<close>

definition frame :: "calib \<Rightarrow> calib \<Rightarrow> bool" where
  "frame c c' \<longleftrightarrow> c' = c\<lparr>rawXcorrs := rawXcorrs c'\<rparr>"


section \<open>Properties\<close>

subsection \<open>Auxiliary facts\<close>

lemma err_bind_Inr_iff: "err_bind m f = Inr y \<longleftrightarrow> (\<exists>x. m = Inr x \<and> f x = Inr y)"
  by (cases m) (simp_all add: err_bind_def)

lemma err_bind_Inl [simp]: "err_bind (Inl e) f = Inl e"
  by (simp add: err_bind_def)

lemma err_bind_Inr [simp]: "err_bind (Inr x) f = f x"
  by (simp add: err_bind_def)

lemma entry_simps [simp]: "entry None = Inl KeyError" "entry (Some v) = Inr v"
  by (simp_all add: entry_def)

lemma np_sum_Nil [simp]: "np_sum [] = 0"
  by (simp add: np_sum_def)

lemma np_sum_Cons [simp]:
  "np_sum (b # bs) = (if b then Suc (np_sum bs) else np_sum bs)"
  by (simp add: np_sum_def)

lemma remdups_const:
  "xs \<noteq> [] \<Longrightarrow> \<forall>x\<in>set xs. x = n \<Longrightarrow> remdups xs = [n]"
proof (induction xs)
  case Nil
  then show ?case by simp
next
  case (Cons a xs)
  then show ?case by (cases xs) auto
qed

lemma remdups_two:
  assumes "x \<in> set xs" "y \<in> set xs" "x \<noteq> y"
  shows "length (remdups xs) \<noteq> 1"
proof
  assume "length (remdups xs) = 1"
  then have "card (set xs) = 1" by (simp add: length_remdups_card_conv)
  then obtain z where "set xs = {z}" by (auto simp: card_1_singleton_iff)
  with assms show False by auto
qed

lemma int_truediv4_floor:
  assumes "0 \<le> n" "n \<le> 2 ^ 53"
  shows "int_truediv4 n = Inr \<lfloor>real_of_int n / 4\<rfloor>"
proof -
  have "\<lfloor>real_of_int n / 4\<rfloor> = n div 4"
    using floor_divide_of_int_eq [of n 4, where ?'a = real] by simp
  with assms show ?thesis by (simp add: int_truediv4_def)
qed

lemma updateMetadata_fields [simp]:
  "level (updateMetadata c) = level c" "shape (updateMetadata c) = shape c"
  "expIdMask (updateMetadata c) = expIdMask c" "rawMeans (updateMetadata c) = rawMeans c"
  "rawVariances (updateMetadata c) = rawVariances c" "rawXcorrs (updateMetadata c) = rawXcorrs c"
  "badAmps (updateMetadata c) = badAmps c" "gain (updateMetadata c) = gain c"
  "noise (updateMetadata c) = noise c" "meanXcorrs (updateMetadata c) = meanXcorrs c"
  "valid (updateMetadata c) = valid c" "ampKernels (updateMetadata c) = ampKernels c"
  "detKernels (updateMetadata c) = detKernels c"
  by (simp_all add: updateMetadata_def)

lemma updateMetadata_header:
  "calib_metadata (updateMetadata c)
     = \<lparr>OBSTYPE = calib_OBSTYPE, bfk_VERSION = calib_VERSION, LEVEL = Some (level c),
        KERNEL_DX = Some (fst (shape c)), KERNEL_DY = Some (snd (shape c))\<rparr>"
  by (simp add: updateMetadata_def)

lemma updateMetadata_idem [simp]: "updateMetadata (updateMetadata c) = updateMetadata c"
  by (simp add: updateMetadata_def)

lemma getLengths_cong:
  assumes "level c = level c'" "shape c = shape c'" "rawMeans c = rawMeans c'"
  shows "getLengths c = getLengths c'"
  unfolding getLengths_def assms ..

lemma getLengths_updateMetadata [simp]: "getLengths (updateMetadata c) = getLengths c"
  by (rule getLengths_cong) simp_all

subsection \<open>getLengths\<close>

text \<open>
  C3. For a calibration whose shape has positive dimensions (and is small enough for the
  float division to be exact), getLengths returns the triple
  \<open>(shape[0]*shape[1], floor((shape[0]-1)*(shape[1]-1)/4), nObs)\<close>: at level AMP \<open>nObs\<close>
  is the one length all rawMeans sequences have, and two amplifiers with rawMeans of
  different lengths make it raise the inconsistency error; at level DETECTOR \<open>nObs\<close> is 0.
\<close>

theorem getLengths_triple:
  assumes pos: "0 < fst (shape c)" "0 < snd (shape c)"
    and rng: "(int (fst (shape c)) - 1) * (int (snd (shape c)) - 1) \<le> 2 ^ 53"
  shows "(level c = ''AMP'' \<longrightarrow> rawMeans c \<noteq> [] \<longrightarrow>
            (\<forall>(amp, xs) \<in> set (rawMeans c). length xs = n) \<longrightarrow>
            getLengths c =
              Inr (fst (shape c) * snd (shape c),
                   \<lfloor>real_of_int ((int (fst (shape c)) - 1) * (int (snd (shape c)) - 1)) / 4\<rfloor>,
                   n))
       \<and> (level c = ''AMP'' \<longrightarrow>
            (\<exists>a xs b ys. (a, xs) \<in> set (rawMeans c) \<and> (b, ys) \<in> set (rawMeans c)
                \<and> length xs \<noteq> length ys) \<longrightarrow>
            getLengths c = Inl InconsistentObservations)
       \<and> (level c = ''DETECTOR'' \<longrightarrow>
            getLengths c =
              Inr (fst (shape c) * snd (shape c),
                   \<lfloor>real_of_int ((int (fst (shape c)) - 1) * (int (snd (shape c)) - 1)) / 4\<rfloor>,
                   0))"
proof -
  let ?n = "(int (fst (shape c)) - 1) * (int (snd (shape c)) - 1)"
  let ?ls = "map (\<lambda>(amp, xs). length xs) (rawMeans c)"
  have nonneg: "0 \<le> ?n" using pos by simp
  have small: "int_truediv4 ?n = Inr \<lfloor>real_of_int ?n / 4\<rfloor>"
    using int_truediv4_floor [OF nonneg rng] .
  have amp_ok: "getLengths c = Inr (fst (shape c) * snd (shape c), \<lfloor>real_of_int ?n / 4\<rfloor>, n)"
    if "level c = ''AMP''" "rawMeans c \<noteq> []" "\<forall>(amp, xs) \<in> set (rawMeans c). length xs = n"
  proof -
    have "?ls \<noteq> []" using that(2) by simp
    moreover have "\<forall>x\<in>set ?ls. x = n" using that(3) by auto
    ultimately have "remdups ?ls = [n]" by (rule remdups_const)
    then show ?thesis using that(1) small by (simp add: getLengths_def)
  qed
  have amp_bad: "getLengths c = Inl InconsistentObservations"
    if "level c = ''AMP''" "(a, xs) \<in> set (rawMeans c)" "(b, ys) \<in> set (rawMeans c)"
       "length xs \<noteq> length ys" for a xs b ys
  proof -
    have "length xs \<in> set ?ls" "length ys \<in> set ?ls" using that(2,3) by force+
    then have "length (remdups ?ls) \<noteq> 1" using that(4) by (rule remdups_two)
    then show ?thesis using that(1) small by (simp add: getLengths_def)
  qed
  have det: "getLengths c = Inr (fst (shape c) * snd (shape c), \<lfloor>real_of_int ?n / 4\<rfloor>, 0)"
    if "level c = ''DETECTOR''"
    using that small by (simp add: getLengths_def)
  show ?thesis using amp_ok amp_bad det by blast
qed

theorem getLengths_triple_witness:
  "getLengths (observed ''AMP'' 10 10) = Inr (289, 64, 10)
 \<and> getLengths (observed ''AMP'' 10 12) = Inl InconsistentObservations
 \<and> getLengths (observed ''DETECTOR'' 10 10) = Inr (289, 64, 0)"
proof -
  have a: "getLengths (observed ''AMP'' 10 10) = Inr (289, 64, 10)"
    using getLengths_triple [of "observed ''AMP'' 10 10" 10]
    by (simp add: observed_def init_def)
  have "(''C00'', replicate 10 (Float 1)) \<in> set (rawMeans (observed ''AMP'' 10 12))
      \<and> (''C01'', replicate 12 (Float 1)) \<in> set (rawMeans (observed ''AMP'' 10 12))
      \<and> length (replicate 10 (Float 1)) \<noteq> length (replicate 12 (Float 1))"
    by (simp add: observed_def init_def)
  then have "\<exists>a xs b ys. (a, xs) \<in> set (rawMeans (observed ''AMP'' 10 12))
      \<and> (b, ys) \<in> set (rawMeans (observed ''AMP'' 10 12)) \<and> length xs \<noteq> length ys"
    by blast
  then have b: "getLengths (observed ''AMP'' 10 12) = Inl InconsistentObservations"
    using getLengths_triple [of "observed ''AMP'' 10 12"]
    by (simp add: observed_def init_def)
  have c: "getLengths (observed ''DETECTOR'' 10 10) = Inr (289, 64, 0)"
    using getLengths_triple [of "observed ''DETECTOR'' 10 10"]
    by (simp add: observed_def init_def)
  show ?thesis using a b c by simp
qed

text \<open>
  The code truncates the quotient towards zero, which is the floor only for a quotient
  that is not negative: with a dimension of 0, which the data model excludes, the two
  differ.
\<close>

lemma getLengths_truncates:
  "getLengths ((init ''DETECTOR'')\<lparr>shape := (0, 6)\<rparr>) = Inr (0, - 1, 0)
 \<and> \<lfloor>real_of_int ((int 0 - 1) * (int 6 - 1)) / 4\<rfloor> = - 2"
proof -
  have "\<lfloor>real_of_int ((int 0 - 1) * (int 6 - 1)) / 4\<rfloor> = \<lfloor>- 5 / (4 :: real)\<rfloor>" by simp
  also have "\<dots> = - 2" by (simp add: floor_eq_iff)
  finally show ?thesis by (simp add: getLengths_def init_def int_truediv4_def)
qed

text \<open>
  C10. A calibration at level AMP whose rawMeans mapping is empty (as one constructed
  without a camera is) makes getLengths raise the inconsistency error that disagreeing
  amplifiers raise, and toDict and toTable fail with it too, having done no more than
  update the header.
\<close>

theorem getLengths_no_amplifiers:
  assumes "level c = ''AMP''" and "rawMeans c = []"
    and "\<bar>(int (fst (shape c)) - 1) * (int (snd (shape c)) - 1)\<bar> \<le> 2 ^ 53"
  shows "getLengths c = Inl InconsistentObservations
       \<and> toDict c = (Inl InconsistentObservations, updateMetadata c)
       \<and> toTable c = (Inl InconsistentObservations, updateMetadata c)"
proof -
  have g: "getLengths c = Inl InconsistentObservations"
    using assms by (simp add: getLengths_def int_truediv4_def)
  then show ?thesis by (simp add: toDict_def toTable_def)
qed

theorem getLengths_no_amplifiers_witness:
  "level (init ''AMP'') = ''AMP'' \<and> rawMeans (init ''AMP'') = []
   \<and> getLengths (init ''AMP'') = Inl InconsistentObservations
   \<and> toDict (init ''AMP'') = (Inl InconsistentObservations, updateMetadata (init ''AMP''))
   \<and> toTable (init ''AMP'') = (Inl InconsistentObservations, updateMetadata (init ''AMP''))"
  using getLengths_no_amplifiers [of "init ''AMP''"] by (simp add: init_def)

subsection \<open>repackCorrelations\<close>

lemma repack_loop_result:
  "idx + np_sum msk \<le> length ys \<Longrightarrow> 2 < length shp \<Longrightarrow>
   \<exists>r. repack_loop msk (Inr ys) shp idx acc = Inr (acc @ r)
     \<and> length r = length msk
     \<and> (\<forall>i<length msk. r ! i = (if msk ! i then ys ! (idx + np_sum (take i msk))
                                  else np_full_nan (shp ! 1) (shp ! 2)))"
proof (induction msk arbitrary: idx acc)
  case Nil
  then show ?case by simp
next
  case (Cons b msk)
  show ?case
  proof (cases b)
    case True
    with Cons.prems have lt: "idx < length ys" and le: "Suc idx + np_sum msk \<le> length ys"
      by simp_all
    from Cons.IH [OF le Cons.prems(2), of "acc @ [ys ! idx]"]
    obtain r where r: "repack_loop msk (Inr ys) shp (Suc idx) (acc @ [ys ! idx]) = Inr ((acc @ [ys ! idx]) @ r)"
      "length r = length msk"
      "\<forall>i<length msk. r ! i = (if msk ! i then ys ! (Suc idx + np_sum (take i msk))
                                  else np_full_nan (shp ! 1) (shp ! 2))"
      by blast
    have "\<forall>i<length (b # msk). (ys ! idx # r) ! i =
            (if (b # msk) ! i then ys ! (idx + np_sum (take i (b # msk)))
             else np_full_nan (shp ! 1) (shp ! 2))"
    proof (intro allI impI)
      fix i assume "i < length (b # msk)"
      then show "(ys ! idx # r) ! i =
            (if (b # msk) ! i then ys ! (idx + np_sum (take i (b # msk)))
             else np_full_nan (shp ! 1) (shp ! 2))"
        using r(3) True by (cases i) simp_all
    qed
    then show ?thesis using r(1,2) True lt by (intro exI [of _ "ys ! idx # r"]) simp
  next
    case False
    with Cons.prems have le: "idx + np_sum msk \<le> length ys" by simp
    let ?nan = "np_full_nan (shp ! 1) (shp ! 2)"
    from Cons.IH [OF le Cons.prems(2), of "acc @ [?nan]"]
    obtain r where r: "repack_loop msk (Inr ys) shp idx (acc @ [?nan]) = Inr ((acc @ [?nan]) @ r)"
      "length r = length msk"
      "\<forall>i<length msk. r ! i = (if msk ! i then ys ! (idx + np_sum (take i msk)) else ?nan)"
      by blast
    have "\<forall>i<length (b # msk). (?nan # r) ! i =
            (if (b # msk) ! i then ys ! (idx + np_sum (take i (b # msk))) else ?nan)"
    proof (intro allI impI)
      fix i assume "i < length (b # msk)"
      then show "(?nan # r) ! i =
            (if (b # msk) ! i then ys ! (idx + np_sum (take i (b # msk))) else ?nan)"
        using r(3) False by (cases i) simp_all
    qed
    then show ?thesis using r(1,2) False Cons.prems(2)
      by (intro exI [of _ "?nan # r"]) simp
  qed
qed

text \<open>
  C2. When the compacted \<open>rawXcorrs[amp]\<close> has as many elements as \<open>expIdMask[amp]\<close>
  has true entries, repackCorrelations stores a sequence as long as the mask: at a true
  mask position the next compacted element, in the original order (the element whose
  index is the number of true entries before that position), and at a false position a
  2-D array, of the shape the caller gives, whose elements are all NaN.
\<close>

theorem repackCorrelations_restores:
  assumes msk: "lookup (expIdMask c) amp = Inr msk"
    and xs: "lookup (rawXcorrs c) amp = Inr xs"
    and len: "length xs = np_sum msk"
    and shp: "length correlationShape = 3"
  shows "\<exists>r. repackCorrelations c amp correlationShape
               = (Inr (), c\<lparr>rawXcorrs := AList.update amp r (rawXcorrs c)\<rparr>)
           \<and> lookup (rawXcorrs (snd (repackCorrelations c amp correlationShape))) amp = Inr r
           \<and> length r = length msk
           \<and> (\<forall>i<length msk.
                 r ! i = (if msk ! i then xs ! np_sum (take i msk)
                          else \<lparr>dims = [correlationShape ! 1, correlationShape ! 2],
                                elems = replicate (correlationShape ! 1 * correlationShape ! 2)
                                          NaN\<rparr>))"
proof -
  from repack_loop_result [of 0 msk xs correlationShape "[]"] len shp
  obtain r where r: "repack_loop msk (Inr xs) correlationShape 0 [] = Inr r"
    "length r = length msk"
    "\<forall>i<length msk. r ! i = (if msk ! i then xs ! np_sum (take i msk)
                          else np_full_nan (correlationShape ! 1) (correlationShape ! 2))"
    by auto
  have "repackCorrelations c amp correlationShape
          = (Inr (), c\<lparr>rawXcorrs := AList.update amp r (rawXcorrs c)\<rparr>)"
    using msk xs r(1) by (simp add: repackCorrelations_def)
  moreover have "lookup (AList.update amp r (rawXcorrs c)) amp = Inr r"
    by (simp add: lookup_def update_conv')
  ultimately show ?thesis using r(2,3) by (auto simp: np_full_nan_def)
qed

theorem repackCorrelations_restores_witness:
  "repackCorrelations repack_example ''C00'' [3, 1, 1]
     = (Inr (),
        repack_example
          \<lparr>rawXcorrs :=
             [(''C00'',
               [\<lparr>dims = [1, 1], elems = [Float 10]\<rparr>, \<lparr>dims = [1, 1], elems = [NaN]\<rparr>,
                \<lparr>dims = [1, 1], elems = [Float 20]\<rparr>, \<lparr>dims = [1, 1], elems = [NaN]\<rparr>,
                \<lparr>dims = [1, 1], elems = [Float 30]\<rparr>])]\<rparr>)"
proof -
  let ?msk = "[True, False, True, False, True]"
  let ?xs = "[small 10, small 20, small 30]"
  let ?nan = "\<lparr>dims = [1, 1], elems = [NaN]\<rparr>"
  have 1: "lookup (expIdMask repack_example) ''C00'' = Inr ?msk"
    by (simp add: repack_example_def init_def lookup_def)
  have 2: "lookup (rawXcorrs repack_example) ''C00'' = Inr ?xs"
    by (simp add: repack_example_def init_def lookup_def)
  have 3: "length ?xs = np_sum ?msk" by simp
  have 4: "length [3, 1, 1 :: nat] = 3" by simp
  from repackCorrelations_restores [OF 1 2 3 4]
  obtain r where r: "repackCorrelations repack_example ''C00'' [3, 1, 1]
               = (Inr (), repack_example\<lparr>rawXcorrs := AList.update ''C00'' r (rawXcorrs repack_example)\<rparr>)"
     "length r = length ?msk"
     "\<forall>i<length ?msk. r ! i = (if ?msk ! i then ?xs ! np_sum (take i ?msk)
                          else \<lparr>dims = [[3, 1, 1] ! 1, [3, 1, 1] ! 2],
                                elems = replicate ([3, 1, 1] ! 1 * [3, 1, 1] ! 2) NaN\<rparr>)"
    by blast
  have "r ! 0 = small 10" using r(3) [rule_format, of 0] by simp
  moreover have "r ! 1 = ?nan" using r(3) [rule_format, of 1] by simp
  moreover have "r ! 2 = small 20" using r(3) [rule_format, of 2] by (simp add: numeral_2_eq_2)
  moreover have "r ! 3 = ?nan" using r(3) [rule_format, of 3] by (simp add: numeral_3_eq_3)
  moreover have "r ! 4 = small 30" using r(3) [rule_format, of 4] by (simp add: eval_nat_numeral)
  ultimately have "\<forall>i<5. r ! i = [small 10, ?nan, small 20, ?nan, small 30] ! i"
    by (auto simp: less_Suc_eq eval_nat_numeral)
  then have "r = [small 10, ?nan, small 20, ?nan, small 30]"
    using r(2) by (intro nth_equalityI) simp_all
  then show ?thesis using r(1) by (simp add: repack_example_def init_def small_def)
qed

subsection \<open>fromDict and fromTable\<close>

lemma fromDict_fields:
  assumes "fromDict d = Inr c"
  shows "\<exists>msk means variances.
           fromDict_version d = Inr (msk, means, variances)
         \<and> OBSTYPE (d_metadata d) = calib_OBSTYPE
         \<and> expIdMask c = msk \<and> rawMeans c = means \<and> rawVariances c = variances
         \<and> gain c = d_gain d \<and> noise c = d_noise d
         \<and> valid c = map (\<lambda>(amp, v). (amp, truthy v)) (d_valid d)
         \<and> badAmps c = map fst (filter (\<lambda>(amp, v). is_False v) (d_valid d))"
  using assms
  by (auto simp: fromDict_def Let_def err_bind_Inr_iff init_def setMetadata_def
      split: if_splits)

lemma fromDict_version_unknown:
  "bfk_VERSION (d_metadata d) \<noteq> 1 \<Longrightarrow> bfk_VERSION (d_metadata d) \<noteq> 11 / 10 \<Longrightarrow>
   fromDict_version d = Inl UnknownVersion"
  by (simp add: fromDict_version_def Let_def)

text \<open>
  C5, as the code has it. fromDict checks the identity tag before the version: a mapping
  with the tag of this calibration and a version that is neither 1.0 nor 1.1 fails with
  the unsupported-version error, and one with another tag fails with the
  identity-mismatch error whatever its version. fromTable checks the version first and
  fails with the unsupported-version error on every such table list. No version other
  than 1.0 and 1.1 yields a calibration.
\<close>

theorem unknown_version_refused:
  "(bfk_VERSION (d_metadata d) \<noteq> 1 \<and> bfk_VERSION (d_metadata d) \<noteq> 11 / 10 \<longrightarrow>
      (OBSTYPE (d_metadata d) = calib_OBSTYPE \<longrightarrow> fromDict d = Inl UnknownVersion)
    \<and> (OBSTYPE (d_metadata d) \<noteq> calib_OBSTYPE \<longrightarrow> fromDict d = Inl IncorrectObstype))
 \<and> (bfk_VERSION (meta (fst t)) \<noteq> 1 \<and> bfk_VERSION (meta (fst t)) \<noteq> 11 / 10 \<longrightarrow>
      fromTable t = Inl UnknownVersion)"
  by (auto simp: fromDict_def fromTable_def Let_def fromDict_version_unknown)

theorem unknown_version_refused_witness:
  "bfk_VERSION (d_metadata unknown_version_example) \<noteq> 1
 \<and> bfk_VERSION (d_metadata unknown_version_example) \<noteq> 11 / 10
 \<and> OBSTYPE (d_metadata unknown_version_example) = calib_OBSTYPE
 \<and> fromDict unknown_version_example = Inl UnknownVersion
 \<and> fromDict foreign_example = Inl IncorrectObstype
 \<and> fromTable unknown_version_table = Inl UnknownVersion"
  using unknown_version_refused [of unknown_version_example unknown_version_table]
    unknown_version_refused [of foreign_example unknown_version_table]
  by (simp add: unknown_version_example_def unknown_version_table_def foreign_example_def
      legacy_example_def calib_OBSTYPE_def)

text \<open>
  A mapping tagged version 2.0 that fromDict does not refuse with the
  unsupported-version error: its identity tag is \<open>ptc\<close>.
\<close>

theorem unknown_version_counterexample:
  "bfk_VERSION (d_metadata foreign_example) = 2
 \<and> fromDict foreign_example = Inl IncorrectObstype
 \<and> fromDict foreign_example \<noteq> Inl UnknownVersion"
  by (simp add: fromDict_def foreign_example_def legacy_example_def calib_OBSTYPE_def)




lemma is_False_iff: "is_False v \<longleftrightarrow> v = PyBool False"
  by (cases v) auto

lemma fromTable_valid:
  assumes "fromTable t = Inr c"
  shows "\<exists>d. fromDict d = Inr c
           \<and> d_valid d = dict_of_zip (AMPLIFIER (fst t)) (map (\<lambda>v. PyBool (truthy v)) (VALID (fst t)))"
  using assms
  by (auto simp: fromTable_def Let_def err_bind_Inr_iff split: if_splits)

lemma falsy_example_accepted: "\<exists>c. fromDict falsy_example = Inr c"
proof -
  have "\<not> isl (fromDict falsy_example)" by code_simp
  then show ?thesis by (cases "fromDict falsy_example") auto
qed

lemma falsy_table_accepted: "\<exists>c. fromTable falsy_table = Inr c"
proof -
  have "\<not> isl (fromTable falsy_table)" by code_simp
  then show ?thesis by (cases "fromTable falsy_table") auto
qed

text \<open>
  C9. After fromDict the list badAmps holds exactly the amplifiers whose persisted
  validity is the Python object \<open>False\<close>, while \<open>valid[amp]\<close> is the truth value of the
  persisted validity; the same holds for the dictionary that fromTable builds, whose
  validity values are all booleans. So an amplifier persisted with the integer 0, or
  with numpy's false, is not valid and is not a bad amplifier after fromDict.
\<close>

theorem fromDict_badAmps_identity:
  "(fromDict d = Inr c \<longrightarrow>
      badAmps c = map fst (filter (\<lambda>(amp, v). v = PyBool False) (d_valid d))
    \<and> valid c = map (\<lambda>(amp, v). (amp, truthy v)) (d_valid d))
 \<and> (fromTable t = Inr c' \<longrightarrow>
      badAmps c' = map fst (filter (\<lambda>(amp, v). v = PyBool False)
                     (dict_of_zip (AMPLIFIER (fst t))
                        (map (\<lambda>v. PyBool (truthy v)) (VALID (fst t))))))
 \<and> (\<exists>c. fromDict falsy_example = Inr c
        \<and> d_valid falsy_example = [(''A'', PyInt 0), (''B'', NpBool False), (''C'', PyBool False)]
        \<and> valid c = [(''A'', False), (''B'', False), (''C'', False)]
        \<and> badAmps c = [''C''])"
proof -
  have eq: "(\<lambda>(amp :: string, v). is_False v) = (\<lambda>(amp, v). v = PyBool False)"
    by (auto simp: is_False_iff)
  have 1: "badAmps c = map fst (filter (\<lambda>(amp, v). v = PyBool False) (d_valid d))
         \<and> valid c = map (\<lambda>(amp, v). (amp, truthy v)) (d_valid d)"
    if "fromDict d = Inr c" for d c
    using fromDict_fields [OF that] eq by auto
  have 2: "badAmps c' = map fst (filter (\<lambda>(amp, v). v = PyBool False)
                     (dict_of_zip (AMPLIFIER (fst t))
                        (map (\<lambda>v. PyBool (truthy v)) (VALID (fst t)))))"
    if "fromTable t = Inr c'"
    using fromTable_valid [OF that] 1 by auto
  obtain c0 where c0: "fromDict falsy_example = Inr c0"
    using falsy_example_accepted by blast
  have v: "d_valid falsy_example = [(''A'', PyInt 0), (''B'', NpBool False), (''C'', PyBool False)]"
    by (simp add: falsy_example_def)
  have 3: "valid c0 = [(''A'', False), (''B'', False), (''C'', False)] \<and> badAmps c0 = [''C'']"
    using 1 [OF c0] v by simp
  show ?thesis using 1 2 3 c0 v by blast
qed

theorem fromDict_badAmps_identity_witness:
  "(\<exists>c. fromDict falsy_example = Inr c
       \<and> valid c = [(''A'', False), (''B'', False), (''C'', False)] \<and> badAmps c = [''C''])
 \<and> (\<exists>c'. fromTable falsy_table = Inr c' \<and> badAmps c' = [''A''])"
proof -
  obtain c where c: "fromDict falsy_example = Inr c" using falsy_example_accepted by blast
  obtain c' where c': "fromTable falsy_table = Inr c'" using falsy_table_accepted by blast
  have v: "d_valid falsy_example = [(''A'', PyInt 0), (''B'', NpBool False), (''C'', PyBool False)]"
    by (simp add: falsy_example_def)
  from fromDict_badAmps_identity [of falsy_example c falsy_table c'] c c' v
  have "valid c = [(''A'', False), (''B'', False), (''C'', False)] \<and> badAmps c = [''C'']"
    "badAmps c' = [''A'']"
    by (simp_all add: falsy_table_def dict_of_zip_def)
  with c c' show ?thesis by blast
qed

subsection \<open>toDict and toTable\<close>

lemma frame_refl [simp]: "frame c c"
  by (simp add: frame_def)

lemma frame_iff:
  "frame c c' \<longleftrightarrow>
     calib_metadata c' = calib_metadata c \<and> level c' = level c \<and> shape c' = shape c
   \<and> expIdMask c' = expIdMask c \<and> rawMeans c' = rawMeans c
   \<and> rawVariances c' = rawVariances c \<and> badAmps c' = badAmps c \<and> gain c' = gain c
   \<and> noise c' = noise c \<and> meanXcorrs c' = meanXcorrs c \<and> valid c' = valid c
   \<and> ampKernels c' = ampKernels c \<and> detKernels c' = detKernels c"
  by (cases c; cases c') (auto simp: frame_def)

lemma frame_trans: "frame c c' \<Longrightarrow> frame c' c'' \<Longrightarrow> frame c c''"
  by (simp add: frame_iff)

lemma frame_fields:
  assumes "frame c c'"
  shows "level c' = level c" "shape c' = shape c" "expIdMask c' = expIdMask c"
    "rawMeans c' = rawMeans c" "rawVariances c' = rawVariances c" "badAmps c' = badAmps c"
    "gain c' = gain c" "noise c' = noise c" "meanXcorrs c' = meanXcorrs c"
    "valid c' = valid c" "ampKernels c' = ampKernels c" "detKernels c' = detKernels c"
    "calib_metadata c' = calib_metadata c"
  using assms by (simp_all add: frame_iff)

lemma repackCorrelations_frame: "frame c (snd (repackCorrelations c amp shp))"
  by (simp add: repackCorrelations_def frame_def split: sum.splits)

lemma coerceCorrelations_frame: "frame c (snd (coerceCorrelations n c amp))"
  using repackCorrelations_frame [of c amp]
  by (simp add: coerceCorrelations_def Let_def split: sum.splits)

lemma toDict_loop_frame: "frame c (snd (toDict_loop n amps c))"
proof (induction amps arbitrary: c)
  case Nil
  then show ?case by simp
next
  case (Cons amp amps)
  obtain r c1 where r: "coerceCorrelations n c amp = (r, c1)" by (cases "coerceCorrelations n c amp")
  then have f1: "frame c c1" using coerceCorrelations_frame [of c n amp] by simp
  show ?case
  proof (cases r)
    case (Inl e)
    with r f1 show ?thesis by simp
  next
    case (Inr u)
    with r have "toDict_loop n (amp # amps) c = toDict_loop n amps c1" by simp
    with Cons.IH [of c1] f1 show ?thesis by (auto intro: frame_trans)
  qed
qed

lemma toDict_frame: "frame (updateMetadata c) (snd (toDict c))"
proof (cases "getLengths c")
  case (Inl e)
  then show ?thesis by (simp add: toDict_def)
next
  case (Inr t)
  obtain k s n where t: "t = (k, s, n)" by (cases t)
  let ?c = "updateMetadata c"
  obtain r c1 where r: "toDict_loop n (keys (rawXcorrs c)) ?c = (r, c1)"
    by (cases "toDict_loop n (keys (rawXcorrs c)) ?c")
  then have "frame ?c c1" using toDict_loop_frame [of ?c n "keys (rawXcorrs c)"] by simp
  then show ?thesis using Inr t r by (cases r) (simp_all add: toDict_def)
qed

lemma toTable_row_frame: "frame c (snd (toTable_row k s n c amp))"
proof -
  obtain r c1 where r: "coerceCorrelations n c amp = (r, c1)" by (cases "coerceCorrelations n c amp")
  then have f1: "frame c c1" using coerceCorrelations_frame [of c n amp] by simp
  then show ?thesis using r
    by (cases r) (auto simp: toTable_row_def split: sum.splits)
qed

lemma toTable_loop_frame: "frame c (snd (toTable_loop k s n amps c rows))"
proof (induction amps arbitrary: c rows)
  case Nil
  then show ?case by simp
next
  case (Cons amp amps)
  obtain r c1 where r: "toTable_row k s n c amp = (r, c1)" by (cases "toTable_row k s n c amp")
  then have f1: "frame c c1" using toTable_row_frame [of c k s n amp] by simp
  show ?case
  proof (cases r)
    case (Inl e)
    with r f1 show ?thesis by simp
  next
    case (Inr u)
    with r have "toTable_loop k s n (amp # amps) c rows = toTable_loop k s n amps c1 (rows @ [u])" by simp
    with Cons.IH [of c1] f1 show ?thesis by (auto intro: frame_trans)
  qed
qed

lemma toTable_frame: "frame (updateMetadata c) (snd (toTable c))"
proof (cases "getLengths c")
  case (Inl e)
  then show ?thesis by (simp add: toTable_def)
next
  case (Inr t)
  obtain k s n where t: "t = (k, s, n)" by (cases t)
  let ?c = "updateMetadata c"
  show ?thesis
  proof (cases "level c = ''AMP''")
    case True
    obtain r c1 where r: "toTable_loop k s n (keys (rawMeans c)) ?c [] = (r, c1)"
      by (cases "toTable_loop k s n (keys (rawMeans c)) ?c []")
    then have "frame ?c c1"
      using toTable_loop_frame [of ?c k s n "keys (rawMeans c)" "[]"] by simp
    then show ?thesis using Inr t r True
      by (cases r) (simp_all add: toTable_def Let_def)
  next
    case False
    then show ?thesis using Inr t by (simp add: toTable_def Let_def)
  qed
qed

lemma np_array_hd_dims: "np_array xs = Inr a \<Longrightarrow> hd (dims a) = length xs"
  by (auto simp: np_array_def split: list.splits if_splits)

lemma coerceCorrelations_same:
  assumes "\<forall>xs. lookup (rawXcorrs c) amp = Inr xs \<longrightarrow> length xs = n"
  shows "snd (coerceCorrelations n c amp) = c"
  using assms
  by (auto simp: coerceCorrelations_def Let_def dest: np_array_hd_dims split: sum.splits)

lemma toDict_loop_same:
  assumes "\<forall>amp xs. lookup (rawXcorrs c) amp = Inr xs \<longrightarrow> length xs = n"
  shows "snd (toDict_loop n amps c) = c"
proof (induction amps)
  case Nil
  then show ?case by simp
next
  case (Cons amp amps)
  have "snd (coerceCorrelations n c amp) = c" using assms by (intro coerceCorrelations_same) blast
  then obtain r where "coerceCorrelations n c amp = (r, c)"
    by (cases "coerceCorrelations n c amp") simp
  then show ?case using Cons.IH by (cases r) simp_all
qed

lemma toTable_row_same:
  assumes "\<forall>xs. lookup (rawXcorrs c) amp = Inr xs \<longrightarrow> length xs = n"
  shows "snd (toTable_row k s n c amp) = c"
proof -
  have "snd (coerceCorrelations n c amp) = c" using assms by (rule coerceCorrelations_same)
  then obtain r where "coerceCorrelations n c amp = (r, c)"
    by (cases "coerceCorrelations n c amp") simp
  then show ?thesis by (cases r) (auto simp: toTable_row_def split: sum.splits)
qed

lemma toTable_loop_same:
  assumes "\<forall>amp xs. lookup (rawXcorrs c) amp = Inr xs \<longrightarrow> length xs = n"
  shows "snd (toTable_loop k s n amps c rows) = c"
proof (induction amps arbitrary: rows)
  case Nil
  then show ?case by simp
next
  case (Cons amp amps)
  have "snd (toTable_row k s n c amp) = c" using assms by (intro toTable_row_same) blast
  then obtain r where "toTable_row k s n c amp = (r, c)"
    by (cases "toTable_row k s n c amp") simp
  then show ?case using Cons.IH by (cases r) simp_all
qed

lemma lookup_Inr_iff: "lookup d k = Inr v \<longleftrightarrow> map_of d k = Some v"
  by (simp add: lookup_def split: option.splits)


lemma lookup_update_same: "lookup (AList.update k v d) k = Inr v"
  by (simp add: lookup_def update_conv')

lemma lookup_update_other: "k' \<noteq> k \<Longrightarrow> lookup (AList.update k v d) k' = lookup d k'"
  by (simp add: lookup_def update_conv')

lemma repack_loop_Inr:
  "repack_loop msk (Inr ys) shp idx acc = Inr res \<Longrightarrow>
   \<exists>r. res = acc @ r
     \<and> length r = length msk
     \<and> (\<forall>i<length msk. r ! i = (if msk ! i then ys ! (idx + np_sum (take i msk))
                                  else np_full_nan (shp ! 1) (shp ! 2)))"
proof (induction msk arbitrary: idx acc)
  case Nil
  then show ?case by simp
next
  case (Cons b msk)
  show ?case
  proof (cases b)
    case True
    with Cons.prems
    have rec: "repack_loop msk (Inr ys) shp (Suc idx) (acc @ [ys ! idx]) = Inr res"
      by (simp split: if_splits)
    from Cons.IH [OF rec]
    obtain r where r: "res = (acc @ [ys ! idx]) @ r" "length r = length msk"
      "\<forall>i<length msk. r ! i = (if msk ! i then ys ! (Suc idx + np_sum (take i msk))
                                  else np_full_nan (shp ! 1) (shp ! 2))"
      by blast
    have "\<forall>i<length (b # msk). (ys ! idx # r) ! i =
            (if (b # msk) ! i then ys ! (idx + np_sum (take i (b # msk)))
             else np_full_nan (shp ! 1) (shp ! 2))"
    proof (intro allI impI)
      fix i assume "i < length (b # msk)"
      then show "(ys ! idx # r) ! i =
            (if (b # msk) ! i then ys ! (idx + np_sum (take i (b # msk)))
             else np_full_nan (shp ! 1) (shp ! 2))"
        using r(3) True by (cases i) simp_all
    qed
    then show ?thesis using r(1,2) by (intro exI [of _ "ys ! idx # r"]) simp
  next
    case False
    let ?nan = "np_full_nan (shp ! 1) (shp ! 2)"
    from False Cons.prems
    have rec: "repack_loop msk (Inr ys) shp idx (acc @ [?nan]) = Inr res"
      by (simp split: if_splits)
    from Cons.IH [OF rec]
    obtain r where r: "res = (acc @ [?nan]) @ r" "length r = length msk"
      "\<forall>i<length msk. r ! i = (if msk ! i then ys ! (idx + np_sum (take i msk)) else ?nan)"
      by blast
    have "\<forall>i<length (b # msk). (?nan # r) ! i =
            (if (b # msk) ! i then ys ! (idx + np_sum (take i (b # msk))) else ?nan)"
    proof (intro allI impI)
      fix i assume "i < length (b # msk)"
      then show "(?nan # r) ! i =
            (if (b # msk) ! i then ys ! (idx + np_sum (take i (b # msk))) else ?nan)"
        using r(3) False by (cases i) simp_all
    qed
    then show ?thesis using r(1,2) by (intro exI [of _ "?nan # r"]) simp
  qed
qed

lemma repack_loop_repacked:
  assumes "repack_loop msk (Inr xs) shp 0 [] = Inr r"
  shows "repacked msk xs (shp ! 1) (shp ! 2) r"
  using repack_loop_Inr [OF assms] by (auto simp: repacked_def np_full_nan_def)

lemma np_sum_all_true:
  assumes "np_sum msk = length msk"
  shows "\<forall>b\<in>set msk. b"
proof (rule ccontr)
  assume "\<not> (\<forall>b\<in>set msk. b)"
  then obtain b where "b \<in> set msk" "\<not> id b" by auto
  then have "length (filter id msk) < length msk" by (rule length_filter_less)
  with assms show False by (simp add: np_sum_def)
qed

lemma np_sum_take_all_true:
  assumes "\<forall>b\<in>set msk. b"
  shows "np_sum (take i msk) = min (length msk) i"
proof -
  have "filter id (take i msk) = take i msk"
    using assms by (auto simp: filter_id_conv dest: in_set_takeD)
  then show ?thesis by (simp add: np_sum_def)
qed

lemma repacked_all_true:
  assumes "repacked msk xs d1 d2 r" "np_sum msk = length msk" "length xs = length msk"
  shows "r = xs"
proof (rule nth_equalityI)
  show "length r = length xs" using assms by (simp add: repacked_def)
next
  fix i assume "i < length r"
  then have i: "i < length msk" using assms(1) by (simp add: repacked_def)
  have t: "\<forall>b\<in>set msk. b" using assms(2) by (rule np_sum_all_true)
  then have "msk ! i" using i nth_mem [of i msk] by blast
  moreover have "np_sum (take i msk) = i" using np_sum_take_all_true [OF t, of i] i by simp
  ultimately show "r ! i = xs ! i" using assms(1) i by (simp add: repacked_def)
qed

lemma coerceCorrelations_cases:
  assumes "coerceCorrelations n c1 b = (q, c2)"
  shows "(c2 = c1 \<and> (\<forall>u xs. q = Inr u \<longrightarrow> lookup (rawXcorrs c1) b = Inr xs \<longrightarrow> length xs = n))
       \<or> (\<exists>xs a msk r. lookup (rawXcorrs c1) b = Inr xs \<and> np_array xs = Inr a
            \<and> length xs \<noteq> n \<and> lookup (expIdMask c1) b = Inr msk \<and> length xs = np_sum msk
            \<and> repack_loop msk (Inr xs) (dims a) 0 [] = Inr r
            \<and> c2 = c1\<lparr>rawXcorrs := AList.update b r (rawXcorrs c1)\<rparr>)"
  using assms
  by (auto simp: coerceCorrelations_def repackCorrelations_def Let_def
           dest: np_array_hd_dims split: sum.splits if_splits)

text \<open>
  One check of an amplifier, in a state whose sequence for that amplifier is the one of
  \<open>c\<close> or that sequence repacked: the sequences of the other amplifiers stay, the one of
  this amplifier stays or becomes the repacked sequence, and it is the repacked sequence
  after a check that has passed if it was not \<open>n\<close> long in \<open>c\<close>.
\<close>

lemma coerceCorrelations_entry:
  assumes E: "expIdMask c1 = expIdMask c"
    and cur: "lookup (rawXcorrs c1) b = lookup (rawXcorrs c) b
            \<or> (\<exists>r. lookup (rawXcorrs c1) b = Inr r \<and> repacked_entry c n b r)"
    and co: "coerceCorrelations n c1 b = (q, c2)"
  shows "\<forall>amp. amp \<noteq> b \<longrightarrow> lookup (rawXcorrs c2) amp = lookup (rawXcorrs c1) amp"
    and "lookup (rawXcorrs c2) b = lookup (rawXcorrs c1) b
       \<or> (\<exists>r. lookup (rawXcorrs c2) b = Inr r \<and> repacked_entry c n b r)"
    and "\<forall>u xs. q = Inr u \<longrightarrow> lookup (rawXcorrs c) b = Inr xs \<longrightarrow> length xs \<noteq> n \<longrightarrow>
           (\<exists>r. lookup (rawXcorrs c2) b = Inr r \<and> repacked_entry c n b r)"
proof -
  from coerceCorrelations_cases [OF co]
  consider (same) "c2 = c1"
      "\<forall>u xs. q = Inr u \<longrightarrow> lookup (rawXcorrs c1) b = Inr xs \<longrightarrow> length xs = n"
    | (repack) xs a msk r where "lookup (rawXcorrs c1) b = Inr xs" "np_array xs = Inr a"
      "length xs \<noteq> n" "lookup (expIdMask c1) b = Inr msk" "length xs = np_sum msk"
      "repack_loop msk (Inr xs) (dims a) 0 [] = Inr r"
      "c2 = c1\<lparr>rawXcorrs := AList.update b r (rawXcorrs c1)\<rparr>"
    by blast
  then have "(\<forall>amp. amp \<noteq> b \<longrightarrow> lookup (rawXcorrs c2) amp = lookup (rawXcorrs c1) amp)
     \<and> (lookup (rawXcorrs c2) b = lookup (rawXcorrs c1) b
         \<or> (\<exists>r. lookup (rawXcorrs c2) b = Inr r \<and> repacked_entry c n b r))
     \<and> (\<forall>u xs. q = Inr u \<longrightarrow> lookup (rawXcorrs c) b = Inr xs \<longrightarrow> length xs \<noteq> n \<longrightarrow>
           (\<exists>r. lookup (rawXcorrs c2) b = Inr r \<and> repacked_entry c n b r))"
  proof cases
    case same
    have "\<exists>r. lookup (rawXcorrs c1) b = Inr r \<and> repacked_entry c n b r"
      if "q = Inr u" "lookup (rawXcorrs c) b = Inr xs" "length xs \<noteq> n" for u xs
      using cur same(2) that by auto
    then show ?thesis using same(1) by blast
  next
    case repack
    have other: "\<forall>amp. amp \<noteq> b \<longrightarrow> lookup (rawXcorrs c2) amp = lookup (rawXcorrs c1) amp"
      using repack(7) by (simp add: lookup_update_other)
    have new: "lookup (rawXcorrs c2) b = Inr r"
      using repack(7) by (simp add: lookup_update_same)
    have rp: "repacked msk xs (dims a ! 1) (dims a ! 2) r"
      using repack(6) by (rule repack_loop_repacked)
    from cur show ?thesis
    proof
      assume "lookup (rawXcorrs c1) b = lookup (rawXcorrs c) b"
      then have "lookup (rawXcorrs c) b = Inr xs" using repack(1) by simp
      moreover have "lookup (expIdMask c) b = Inr msk" using repack(4) E by simp
      ultimately have "repacked_entry c n b r"
        unfolding repacked_entry_def using repack(2,3,5) rp by blast
      with other new show ?thesis by blast
    next
      assume "\<exists>r. lookup (rawXcorrs c1) b = Inr r \<and> repacked_entry c n b r"
      then have re: "repacked_entry c n b xs" using repack(1) by auto
      then obtain xs0 d1 d2 where "repacked msk xs0 d1 d2 xs"
        using repack(4) E unfolding repacked_entry_def by auto
      then have "length xs = length msk" by (simp add: repacked_def)
      with rp repack(5) have "r = xs" by (intro repacked_all_true [of msk xs _ _ r]) simp_all
      with other new re show ?thesis by blast
    qed
  qed
  then show "\<forall>amp. amp \<noteq> b \<longrightarrow> lookup (rawXcorrs c2) amp = lookup (rawXcorrs c1) amp"
    and "lookup (rawXcorrs c2) b = lookup (rawXcorrs c1) b
       \<or> (\<exists>r. lookup (rawXcorrs c2) b = Inr r \<and> repacked_entry c n b r)"
    and "\<forall>u xs. q = Inr u \<longrightarrow> lookup (rawXcorrs c) b = Inr xs \<longrightarrow> length xs \<noteq> n \<longrightarrow>
           (\<exists>r. lookup (rawXcorrs c2) b = Inr r \<and> repacked_entry c n b r)"
    by blast+
qed

lemma coerceCorrelations_repacks:
  assumes E: "expIdMask c1 = expIdMask c"
    and P: "repacks c n c1"
    and J: "repacked_all c n c1 V"
    and co: "coerceCorrelations n c1 b = (q, c2)"
  shows "expIdMask c2 = expIdMask c"
    and "repacks c n c2"
    and "repacked_all c n c2 V"
    and "q = Inr u \<Longrightarrow> repacked_all c n c2 (insert b V)"
proof -
  have cur: "lookup (rawXcorrs c1) b = lookup (rawXcorrs c) b
            \<or> (\<exists>r. lookup (rawXcorrs c1) b = Inr r \<and> repacked_entry c n b r)"
    using P by (simp add: repacks_def)
  note en = coerceCorrelations_entry [OF E cur co]
  show "expIdMask c2 = expIdMask c"
    using coerceCorrelations_frame [of c1 n b] co E by (simp add: frame_iff)
  show "repacks c n c2"
    unfolding repacks_def
  proof
    fix amp
    show "lookup (rawXcorrs c2) amp = lookup (rawXcorrs c) amp
        \<or> (\<exists>r. lookup (rawXcorrs c2) amp = Inr r \<and> repacked_entry c n amp r)"
      using P [unfolded repacks_def, rule_format, of amp] en(1,2) by (cases "amp = b") auto
  qed
  have keep: "\<exists>r. lookup (rawXcorrs c2) amp = Inr r \<and> repacked_entry c n amp r"
    if "\<exists>r. lookup (rawXcorrs c1) amp = Inr r \<and> repacked_entry c n amp r" for amp
    using that en(1,2) by (cases "amp = b") auto
  show J': "repacked_all c n c2 V"
    using J keep unfolding repacked_all_def by blast
  show "repacked_all c n c2 (insert b V)" if "q = Inr u"
    using J' en(3) that unfolding repacked_all_def by blast
qed

lemma toDict_loop_repacks:
  assumes "expIdMask c1 = expIdMask c" "repacks c n c1" "repacked_all c n c1 V"
    and "toDict_loop n amps c1 = (q, c2)"
  shows "repacks c n c2 \<and> (\<forall>u. q = Inr u \<longrightarrow> repacked_all c n c2 (V \<union> set amps))"
  using assms
proof (induction amps arbitrary: c1 V)
  case Nil
  then show ?case by simp
next
  case (Cons b amps)
  obtain q1 c1' where co: "coerceCorrelations n c1 b = (q1, c1')"
    by (cases "coerceCorrelations n c1 b")
  note st = coerceCorrelations_repacks [OF Cons.prems(1,2,3) co]
  show ?case
  proof (cases q1)
    case (Inl e)
    with co Cons.prems(4) have "c2 = c1'" "q = Inl e" by simp_all
    with st(2) show ?thesis by simp
  next
    case (Inr u)
    with co Cons.prems(4) have "toDict_loop n amps c1' = (q, c2)" by simp
    from Cons.IH [OF st(1) st(2) st(4) [OF Inr] this] show ?thesis by simp
  qed
qed

lemma toTable_row_coerce:
  assumes "toTable_row k s n c1 b = (q, c2)"
  shows "(c2 = c1 \<and> isl q)
       \<or> (\<exists>q'. coerceCorrelations n c1 b = (q', c2) \<and> (isl q' \<longrightarrow> isl q))"
proof -
  obtain q' c' where co: "coerceCorrelations n c1 b = (q', c')"
    by (cases "coerceCorrelations n c1 b")
  show ?thesis using assms co
    by (cases q') (auto simp: toTable_row_def split: sum.splits)
qed

lemma toTable_row_repacks:
  assumes E: "expIdMask c1 = expIdMask c"
    and P: "repacks c n c1"
    and J: "repacked_all c n c1 V"
    and co: "toTable_row k s n c1 b = (q, c2)"
  shows "expIdMask c2 = expIdMask c"
    and "repacks c n c2"
    and "repacked_all c n c2 V"
    and "q = Inr u \<Longrightarrow> repacked_all c n c2 (insert b V)"
proof -
  from toTable_row_coerce [OF co]
  have "expIdMask c2 = expIdMask c \<and> repacks c n c2 \<and> repacked_all c n c2 V
      \<and> (q = Inr u \<longrightarrow> repacked_all c n c2 (insert b V))"
  proof
    assume "c2 = c1 \<and> isl q"
    then show ?thesis using E P J by auto
  next
    assume "\<exists>q'. coerceCorrelations n c1 b = (q', c2) \<and> (isl q' \<longrightarrow> isl q)"
    then obtain q' where q': "coerceCorrelations n c1 b = (q', c2)" "isl q' \<longrightarrow> isl q" by blast
    note st = coerceCorrelations_repacks [OF E P J q'(1)]
    have "repacked_all c n c2 (insert b V)" if "q = Inr u"
    proof -
      from that q'(2) obtain u' where "q' = Inr u'" by (cases q') auto
      then show ?thesis by (rule st(4))
    qed
    with st(1,2,3) show ?thesis by blast
  qed
  then show "expIdMask c2 = expIdMask c" and "repacks c n c2" and "repacked_all c n c2 V"
    and "q = Inr u \<Longrightarrow> repacked_all c n c2 (insert b V)"
    by blast+
qed

lemma toTable_loop_repacks:
  assumes "expIdMask c1 = expIdMask c" "repacks c n c1" "repacked_all c n c1 V"
    and "toTable_loop k s n amps c1 rows = (q, c2)"
  shows "repacks c n c2 \<and> (\<forall>u. q = Inr u \<longrightarrow> repacked_all c n c2 (V \<union> set amps))"
  using assms
proof (induction amps arbitrary: c1 V rows)
  case Nil
  then show ?case by simp
next
  case (Cons b amps)
  obtain q1 c1' where co: "toTable_row k s n c1 b = (q1, c1')"
    by (cases "toTable_row k s n c1 b")
  note st = toTable_row_repacks [OF Cons.prems(1,2,3) co]
  show ?case
  proof (cases q1)
    case (Inl e)
    with co Cons.prems(4) have "c2 = c1'" "q = Inl e" by simp_all
    with st(2) show ?thesis by simp
  next
    case (Inr u)
    with co Cons.prems(4) have "toTable_loop k s n amps c1' (rows @ [u]) = (q, c2)" by simp
    from Cons.IH [OF st(1) st(2) st(4) [OF Inr] this] show ?thesis by simp
  qed
qed

lemma repacked_entry_updateMetadata [simp]:
  "repacked_entry (updateMetadata c) n amp r = repacked_entry c n amp r"
  by (simp add: repacked_entry_def)

lemma repacks_updateMetadata [simp]: "repacks (updateMetadata c) n c' = repacks c n c'"
  by (simp add: repacks_def)

lemma repacked_all_updateMetadata [simp]:
  "repacked_all (updateMetadata c) n c' V = repacked_all c n c' V"
  by (simp add: repacked_all_def)

lemma toDict_repacks:
  assumes g: "getLengths c = Inr (k, s, n)"
  shows "repacks c n (snd (toDict c))"
    and "fst (toDict c) = Inr d \<Longrightarrow> repacked_all c n (snd (toDict c)) (set (keys (rawXcorrs c)))"
proof -
  let ?c = "updateMetadata c"
  obtain q c2 where l: "toDict_loop n (keys (rawXcorrs c)) ?c = (q, c2)"
    by (cases "toDict_loop n (keys (rawXcorrs c)) ?c")
  have s: "snd (toDict c) = c2" using g l by (cases q) (simp_all add: toDict_def)
  have "repacks ?c n ?c" "repacked_all ?c n ?c {}"
    by (simp_all add: repacks_def repacked_all_def)
  from toDict_loop_repacks [OF refl this l]
  have r: "repacks c n c2" "\<forall>u. q = Inr u \<longrightarrow> repacked_all c n c2 (set (keys (rawXcorrs c)))"
    by simp_all
  show "repacks c n (snd (toDict c))" using r(1) s by simp
  show "repacked_all c n (snd (toDict c)) (set (keys (rawXcorrs c)))" if "fst (toDict c) = Inr d"
  proof -
    from that g l obtain u where "q = Inr u" by (cases q) (simp_all add: toDict_def)
    with r(2) s show ?thesis by simp
  qed
qed

lemma toTable_repacks:
  assumes g: "getLengths c = Inr (k, s, n)"
  shows "repacks c n (snd (toTable c))"
    and "fst (toTable c) = Inr t \<Longrightarrow> level c = ''AMP'' \<Longrightarrow>
         repacked_all c n (snd (toTable c)) (set (keys (rawMeans c)))"
proof -
  let ?c = "updateMetadata c"
  obtain q c2 where l: "toTable_loop k s n (keys (rawMeans c)) ?c [] = (q, c2)"
    by (cases "toTable_loop k s n (keys (rawMeans c)) ?c []")
  have s: "snd (toTable c) = c2" if "level c = ''AMP''"
    using g l that by (cases q) (simp_all add: toTable_def Let_def)
  have s': "snd (toTable c) = ?c" if "level c \<noteq> ''AMP''"
    using g that by (simp add: toTable_def Let_def)
  have "repacks ?c n ?c" "repacked_all ?c n ?c {}"
    by (simp_all add: repacks_def repacked_all_def)
  from toTable_loop_repacks [OF refl this l]
  have r: "repacks c n c2" "\<forall>u. q = Inr u \<longrightarrow> repacked_all c n c2 (set (keys (rawMeans c)))"
    by simp_all
  show "repacks c n (snd (toTable c))"
    using r(1) s s' by (cases "level c = ''AMP''") (simp_all add: repacks_def)
  show "repacked_all c n (snd (toTable c)) (set (keys (rawMeans c)))"
    if "fst (toTable c) = Inr t" "level c = ''AMP''"
  proof -
    from that g l obtain u where "q = Inr u"
      by (cases q) (simp_all add: toTable_def Let_def)
    with r(2) s that(2) show ?thesis by simp
  qed
qed

lemma export_same:
  assumes h: "\<forall>k s n amp xs. getLengths c = Inr (k, s, n) \<longrightarrow> (amp, xs) \<in> set (rawXcorrs c) \<longrightarrow>
        length xs = n"
  shows "snd (toDict c) = updateMetadata c \<and> snd (toTable c) = updateMetadata c"
proof (cases "getLengths c")
  case (Inl e)
  then show ?thesis by (simp add: toDict_def toTable_def)
next
  case (Inr t)
  obtain k s n where t: "t = (k, s, n)" by (cases t)
  let ?c = "updateMetadata c"
  have full: "\<forall>amp xs. lookup (rawXcorrs ?c) amp = Inr xs \<longrightarrow> length xs = n"
    using h Inr t by (auto simp: lookup_Inr_iff dest: map_of_SomeD)
  have d: "snd (toDict_loop n (keys (rawXcorrs c)) ?c) = ?c"
    using full by (rule toDict_loop_same)
  have tl: "snd (toTable_loop k s n (keys (rawMeans c)) ?c []) = ?c"
    using full by (rule toTable_loop_same)
  obtain r1 where r1: "toDict_loop n (keys (rawXcorrs c)) ?c = (r1, ?c)"
    using d by (cases "toDict_loop n (keys (rawXcorrs c)) ?c") simp
  obtain r2 where r2: "toTable_loop k s n (keys (rawMeans c)) ?c [] = (r2, ?c)"
    using tl by (cases "toTable_loop k s n (keys (rawMeans c)) ?c []") simp
  have "snd (toDict c) = ?c" using Inr t r1 by (cases r1) (simp_all add: toDict_def Let_def)
  moreover have "snd (toTable c) = ?c" using Inr t r2
    by (cases r2) (simp_all add: toTable_def Let_def)
  ultimately show ?thesis by simp
qed

lemma coerceCorrelations_keys:
  "keys (rawXcorrs (snd (coerceCorrelations n c amp))) = keys (rawXcorrs c)"
proof -
  obtain q c2 where co: "coerceCorrelations n c amp = (q, c2)"
    by (cases "coerceCorrelations n c amp")
  from coerceCorrelations_cases [OF co] have "keys (rawXcorrs c2) = keys (rawXcorrs c)"
  proof (elim disjE exE conjE)
    fix xs a msk r
    assume l: "lookup (rawXcorrs c) amp = Inr xs"
      and c2: "c2 = c\<lparr>rawXcorrs := AList.update amp r (rawXcorrs c)\<rparr>"
    from l have "amp \<in> set (map fst (rawXcorrs c))"
      by (auto simp: lookup_Inr_iff dest: map_of_SomeD intro: rev_image_eqI)
    then show ?thesis using c2 by (simp add: keys_def update_keys)
  qed simp
  with co show ?thesis by simp
qed

lemma toDict_loop_keys: "keys (rawXcorrs (snd (toDict_loop n amps c))) = keys (rawXcorrs c)"
proof (induction amps arbitrary: c)
  case Nil
  then show ?case by simp
next
  case (Cons amp amps)
  obtain r c1 where r: "coerceCorrelations n c amp = (r, c1)" by (cases "coerceCorrelations n c amp")
  then have k: "keys (rawXcorrs c1) = keys (rawXcorrs c)"
    using coerceCorrelations_keys [of n c amp] by simp
  show ?case using r k Cons.IH [of c1] by (cases r) simp_all
qed

lemma toTable_row_keys:
  "keys (rawXcorrs (snd (toTable_row k s n c amp))) = keys (rawXcorrs c)"
proof -
  obtain q c2 where r: "toTable_row k s n c amp = (q, c2)" by (cases "toTable_row k s n c amp")
  from toTable_row_coerce [OF r] coerceCorrelations_keys [of n c amp]
  have "keys (rawXcorrs c2) = keys (rawXcorrs c)" by auto
  with r show ?thesis by simp
qed

lemma toTable_loop_keys:
  "keys (rawXcorrs (snd (toTable_loop k s n amps c rows))) = keys (rawXcorrs c)"
proof (induction amps arbitrary: c rows)
  case Nil
  then show ?case by simp
next
  case (Cons amp amps)
  obtain r c1 where r: "toTable_row k s n c amp = (r, c1)" by (cases "toTable_row k s n c amp")
  then have k: "keys (rawXcorrs c1) = keys (rawXcorrs c)"
    using toTable_row_keys [of k s n c amp] by simp
  show ?case using r k Cons.IH [of c1] by (cases r) simp_all
qed

lemma toDict_keys: "keys (rawXcorrs (snd (toDict c))) = keys (rawXcorrs c)"
proof (cases "getLengths c")
  case (Inl e)
  then show ?thesis by (simp add: toDict_def)
next
  case (Inr t)
  obtain k s n where t: "t = (k, s, n)" by (cases t)
  let ?c = "updateMetadata c"
  obtain r c1 where r: "toDict_loop n (keys (rawXcorrs c)) ?c = (r, c1)"
    by (cases "toDict_loop n (keys (rawXcorrs c)) ?c")
  then have "keys (rawXcorrs c1) = keys (rawXcorrs c)"
    using toDict_loop_keys [of n "keys (rawXcorrs c)" ?c] by simp
  then show ?thesis using Inr t r by (cases r) (simp_all add: toDict_def)
qed

lemma toTable_keys: "keys (rawXcorrs (snd (toTable c))) = keys (rawXcorrs c)"
proof (cases "getLengths c")
  case (Inl e)
  then show ?thesis by (simp add: toTable_def)
next
  case (Inr t)
  obtain k s n where t: "t = (k, s, n)" by (cases t)
  let ?c = "updateMetadata c"
  show ?thesis
  proof (cases "level c = ''AMP''")
    case True
    obtain r c1 where r: "toTable_loop k s n (keys (rawMeans c)) ?c [] = (r, c1)"
      by (cases "toTable_loop k s n (keys (rawMeans c)) ?c []")
    then have "keys (rawXcorrs c1) = keys (rawXcorrs c)"
      using toTable_loop_keys [of k s n "keys (rawMeans c)" ?c "[]"] by simp
    then show ?thesis using Inr t r True
      by (cases r) (simp_all add: toTable_def Let_def)
  next
    case False
    then show ?thesis using Inr t by (simp add: toTable_def Let_def)
  qed
qed

lemma toTable_other_level:
  assumes "level c \<noteq> ''AMP''"
  shows "snd (toTable c) = updateMetadata c"
proof (cases "getLengths c")
  case (Inl e)
  then show ?thesis by (simp add: toTable_def)
next
  case (Inr t)
  then show ?thesis using assms by (cases t) (simp add: toTable_def Let_def)
qed

lemma lookup_Inr_key: "lookup d k = Inr v \<Longrightarrow> k \<in> set (keys d)"
  by (auto simp: lookup_Inr_iff keys_def dest: map_of_SomeD intro: rev_image_eqI)

text \<open>
  C7, as the code has it. toDict and toTable first update the header of the calibration:
  it then holds the identity tag and the version of the class, the level and the kernel
  shape. Beyond that they change no attribute other than \<open>rawXcorrs\<close>, whether they
  return or raise, and \<open>rawXcorrs\<close> keeps its amplifiers in their order. They leave
  \<open>rawXcorrs\<close> as it is when every sequence in it has \<open>nObs\<close> elements already, and so
  does toTable at any level other than AMP. A sequence of \<open>rawXcorrs\<close> that is no longer
  what it was has been replaced by that sequence repacked: it was not \<open>nObs\<close> long, it
  was as long as the mask of its amplifier has true entries, and the new sequence is as
  long as the mask, with the arrays of the old one in their order at the true positions
  and, at each false position, an array of NaN that has the shape of the arrays of the
  old sequence. After an export that returns, every sequence that was not \<open>nObs\<close> long
  has been replaced so (for toTable at level AMP: that of every amplifier of \<open>rawMeans\<close>).
\<close>

theorem export_frame:
  "snd (toDict c) = (updateMetadata c)\<lparr>rawXcorrs := rawXcorrs (snd (toDict c))\<rparr>
 \<and> snd (toTable c) = (updateMetadata c)\<lparr>rawXcorrs := rawXcorrs (snd (toTable c))\<rparr>
 \<and> updateMetadata c
      = c\<lparr>calib_metadata :=
            \<lparr>OBSTYPE = ''bfk'', bfk_VERSION = 11 / 10, LEVEL = Some (level c),
             KERNEL_DX = Some (fst (shape c)), KERNEL_DY = Some (snd (shape c))\<rparr>\<rparr>
 \<and> keys (rawXcorrs (snd (toDict c))) = keys (rawXcorrs c)
 \<and> keys (rawXcorrs (snd (toTable c))) = keys (rawXcorrs c)
 \<and> ((\<forall>k s n amp xs. getLengths c = Inr (k, s, n) \<longrightarrow> (amp, xs) \<in> set (rawXcorrs c) \<longrightarrow>
        length xs = n) \<longrightarrow>
      snd (toDict c) = updateMetadata c \<and> snd (toTable c) = updateMetadata c)
 \<and> (level c \<noteq> ''AMP'' \<longrightarrow> snd (toTable c) = updateMetadata c)
 \<and> (\<forall>c' amp. c' = snd (toDict c) \<or> c' = snd (toTable c) \<longrightarrow>
        lookup (rawXcorrs c') amp = lookup (rawXcorrs c) amp
      \<or> (\<exists>k s n r. getLengths c = Inr (k, s, n) \<and> lookup (rawXcorrs c') amp = Inr r
            \<and> repacked_entry c n amp r))
 \<and> (\<forall>d k s n amp xs. fst (toDict c) = Inr d \<longrightarrow> getLengths c = Inr (k, s, n) \<longrightarrow>
        lookup (rawXcorrs c) amp = Inr xs \<longrightarrow> length xs \<noteq> n \<longrightarrow>
        (\<exists>r. lookup (rawXcorrs (snd (toDict c))) amp = Inr r \<and> repacked_entry c n amp r))
 \<and> (\<forall>t k s n amp xs. fst (toTable c) = Inr t \<longrightarrow> level c = ''AMP'' \<longrightarrow>
        getLengths c = Inr (k, s, n) \<longrightarrow> amp \<in> set (keys (rawMeans c)) \<longrightarrow>
        lookup (rawXcorrs c) amp = Inr xs \<longrightarrow> length xs \<noteq> n \<longrightarrow>
        (\<exists>r. lookup (rawXcorrs (snd (toTable c))) amp = Inr r \<and> repacked_entry c n amp r))"
proof -
  have 1: "snd (toDict c) = (updateMetadata c)\<lparr>rawXcorrs := rawXcorrs (snd (toDict c))\<rparr>"
    using toDict_frame [of c] by (simp add: frame_def)
  have 2: "snd (toTable c) = (updateMetadata c)\<lparr>rawXcorrs := rawXcorrs (snd (toTable c))\<rparr>"
    using toTable_frame [of c] by (simp add: frame_def)
  have 3: "updateMetadata c
      = c\<lparr>calib_metadata :=
            \<lparr>OBSTYPE = ''bfk'', bfk_VERSION = 11 / 10, LEVEL = Some (level c),
             KERNEL_DX = Some (fst (shape c)), KERNEL_DY = Some (snd (shape c))\<rparr>\<rparr>"
    by (simp add: updateMetadata_def calib_OBSTYPE_def calib_VERSION_def)
  have 4: "(\<forall>k s n amp xs. getLengths c = Inr (k, s, n) \<longrightarrow> (amp, xs) \<in> set (rawXcorrs c) \<longrightarrow>
        length xs = n) \<longrightarrow>
      snd (toDict c) = updateMetadata c \<and> snd (toTable c) = updateMetadata c"
    using export_same [of c] by blast
  have 5: "level c \<noteq> ''AMP'' \<longrightarrow> snd (toTable c) = updateMetadata c"
    using toTable_other_level [of c] by blast
  have 6: "\<forall>c' amp. c' = snd (toDict c) \<or> c' = snd (toTable c) \<longrightarrow>
        lookup (rawXcorrs c') amp = lookup (rawXcorrs c) amp
      \<or> (\<exists>k s n r. getLengths c = Inr (k, s, n) \<and> lookup (rawXcorrs c') amp = Inr r
            \<and> repacked_entry c n amp r)"
  proof (intro allI impI)
    fix c' amp
    assume c': "c' = snd (toDict c) \<or> c' = snd (toTable c)"
    show "lookup (rawXcorrs c') amp = lookup (rawXcorrs c) amp
      \<or> (\<exists>k s n r. getLengths c = Inr (k, s, n) \<and> lookup (rawXcorrs c') amp = Inr r
            \<and> repacked_entry c n amp r)"
  proof (cases "getLengths c")
    case (Inl e)
    then have "snd (toDict c) = updateMetadata c" "snd (toTable c) = updateMetadata c"
      by (simp_all add: toDict_def toTable_def)
    with c' show ?thesis by auto
  next
    case (Inr t)
    obtain k s n where t: "t = (k, s, n)" by (cases t)
    have "repacks c n c'"
      using c' toDict_repacks(1) [OF Inr [unfolded t]] toTable_repacks(1) [OF Inr [unfolded t]]
      by auto
    then show ?thesis using Inr t unfolding repacks_def by blast
  qed
  qed
  have 7: "\<forall>d k s n amp xs. fst (toDict c) = Inr d \<longrightarrow> getLengths c = Inr (k, s, n) \<longrightarrow>
        lookup (rawXcorrs c) amp = Inr xs \<longrightarrow> length xs \<noteq> n \<longrightarrow>
        (\<exists>r. lookup (rawXcorrs (snd (toDict c))) amp = Inr r \<and> repacked_entry c n amp r)"
  proof (intro allI impI)
    fix d k s n amp xs
    assume that: "fst (toDict c) = Inr d" "getLengths c = Inr (k, s, n)"
      "lookup (rawXcorrs c) amp = Inr xs" "length xs \<noteq> n"
    show "\<exists>r. lookup (rawXcorrs (snd (toDict c))) amp = Inr r \<and> repacked_entry c n amp r"
      using toDict_repacks(2) [OF that(2,1)] lookup_Inr_key [OF that(3)] that(3,4)
      unfolding repacked_all_def by blast
  qed
  have 8: "\<forall>t k s n amp xs. fst (toTable c) = Inr t \<longrightarrow> level c = ''AMP'' \<longrightarrow>
        getLengths c = Inr (k, s, n) \<longrightarrow> amp \<in> set (keys (rawMeans c)) \<longrightarrow>
        lookup (rawXcorrs c) amp = Inr xs \<longrightarrow> length xs \<noteq> n \<longrightarrow>
        (\<exists>r. lookup (rawXcorrs (snd (toTable c))) amp = Inr r \<and> repacked_entry c n amp r)"
  proof (intro allI impI)
    fix t k s n amp xs
    assume that: "fst (toTable c) = Inr t" "level c = ''AMP''" "getLengths c = Inr (k, s, n)"
      "amp \<in> set (keys (rawMeans c))" "lookup (rawXcorrs c) amp = Inr xs" "length xs \<noteq> n"
    show "\<exists>r. lookup (rawXcorrs (snd (toTable c))) amp = Inr r \<and> repacked_entry c n amp r"
      using toTable_repacks(2) [OF that(3,1,2)] that(4,5,6)
      unfolding repacked_all_def by blast
  qed
  note k = toDict_keys [of c] toTable_keys [of c]
  show ?thesis
    by (rule conjI 1 2 3 k 4 5 6 7 8)+
qed

lemma stale_lengths: "getLengths stale_example = Inr (9, 1, 3)"
  by code_simp

lemma compacted_lengths: "getLengths compacted_example = Inr (9, 1, 3)"
  by code_simp

lemma compacted_exports:
  "\<exists>d t. fst (toDict compacted_example) = Inr d \<and> fst (toTable compacted_example) = Inr t"
proof -
  have "\<not> isl (fst (toDict compacted_example))" "\<not> isl (fst (toTable compacted_example))"
    by code_simp+
  then show ?thesis
    by (cases "fst (toDict compacted_example)"; cases "fst (toTable compacted_example)") auto
qed

lemma repacked_compacted:
  assumes "repacked [True, False, True] [small 10, small 20] 1 1 r"
  shows "r = [\<lparr>dims = [1, 1], elems = [Float 10]\<rparr>, \<lparr>dims = [1, 1], elems = [NaN]\<rparr>,
              \<lparr>dims = [1, 1], elems = [Float 20]\<rparr>]"
proof -
  let ?msk = "[True, False, True]"
  let ?xs = "[small 10, small 20]"
  let ?nan = "\<lparr>dims = [1, 1], elems = [NaN]\<rparr>"
  from assms have l: "length r = 3"
    and n: "\<forall>i<3. r ! i = (if ?msk ! i then ?xs ! np_sum (take i ?msk) else ?nan)"
    by (simp_all add: repacked_def)
  have "r ! 0 = small 10" using n [rule_format, of 0] by simp
  moreover have "r ! 1 = ?nan" using n [rule_format, of 1] by simp
  moreover have "r ! 2 = small 20" using n [rule_format, of 2] by (simp add: numeral_2_eq_2)
  ultimately have "\<forall>i<3. r ! i = [small 10, ?nan, small 20] ! i"
    by (auto simp: less_Suc_eq eval_nat_numeral)
  then have "r = [small 10, ?nan, small 20]"
    using l by (intro nth_equalityI) simp_all
  then show ?thesis by (simp add: small_def)
qed

lemma compacted_entry:
  assumes "repacked_entry compacted_example 3 ''A'' r"
  shows "r = [\<lparr>dims = [1, 1], elems = [Float 10]\<rparr>, \<lparr>dims = [1, 1], elems = [NaN]\<rparr>,
              \<lparr>dims = [1, 1], elems = [Float 20]\<rparr>]"
proof -
  from assms obtain xs msk a where
    "lookup (rawXcorrs compacted_example) ''A'' = Inr xs"
    "lookup (expIdMask compacted_example) ''A'' = Inr msk"
    "np_array xs = Inr a" "repacked msk xs (dims a ! 1) (dims a ! 2) r"
    unfolding repacked_entry_def by blast
  then have "repacked [True, False, True] [small 10, small 20] 1 1 r"
    by (auto simp: compacted_example_def lookup_def np_array_def small_def)
  then show ?thesis by (rule repacked_compacted)
qed

theorem export_frame_witness:
  "snd (toDict stale_example) = complete_example
 \<and> snd (toTable stale_example) = complete_example
 \<and> stale_example \<noteq> complete_example
 \<and> lookup (rawXcorrs compacted_example) ''A''
      = Inr [\<lparr>dims = [1, 1], elems = [Float 10]\<rparr>, \<lparr>dims = [1, 1], elems = [Float 20]\<rparr>]
 \<and> lookup (rawXcorrs (snd (toDict compacted_example))) ''A''
      = Inr [\<lparr>dims = [1, 1], elems = [Float 10]\<rparr>, \<lparr>dims = [1, 1], elems = [NaN]\<rparr>,
             \<lparr>dims = [1, 1], elems = [Float 20]\<rparr>]
 \<and> lookup (rawXcorrs (snd (toTable compacted_example))) ''A''
      = Inr [\<lparr>dims = [1, 1], elems = [Float 10]\<rparr>, \<lparr>dims = [1, 1], elems = [NaN]\<rparr>,
             \<lparr>dims = [1, 1], elems = [Float 20]\<rparr>]"
proof -
  have full: "\<forall>k s n amp xs. getLengths stale_example = Inr (k, s, n) \<longrightarrow>
          (amp, xs) \<in> set (rawXcorrs stale_example) \<longrightarrow> length xs = n"
    unfolding stale_lengths
    by (auto simp: stale_example_def complete_example_def compacted_example_def)
  have u: "updateMetadata stale_example = complete_example"
    by (simp add: updateMetadata_def stale_example_def complete_example_def
        compacted_example_def header_def calib_OBSTYPE_def calib_VERSION_def)
  have ne: "stale_example \<noteq> complete_example"
  proof
    assume "stale_example = complete_example"
    then have "calib_metadata stale_example = calib_metadata complete_example" by simp
    then show False
      by (simp add: stale_example_def complete_example_def compacted_example_def header_def
          init_def)
  qed
  have x: "lookup (rawXcorrs compacted_example) ''A''
      = Inr [\<lparr>dims = [1, 1], elems = [Float 10]\<rparr>, \<lparr>dims = [1, 1], elems = [Float 20]\<rparr>]"
    by (simp add: compacted_example_def lookup_def small_def)
  have a: "''A'' \<in> set (keys (rawMeans compacted_example))"
    by (simp add: compacted_example_def keys_def)
  have lv: "level compacted_example = ''AMP''" by (simp add: compacted_example_def)
  obtain d t where e: "fst (toDict compacted_example) = Inr d"
    "fst (toTable compacted_example) = Inr t"
    using compacted_exports by blast
  note st = export_frame [of stale_example, THEN conjunct2, THEN conjunct2, THEN conjunct2,
      THEN conjunct2, THEN conjunct2, THEN conjunct1, rule_format]
  have 1: "snd (toDict stale_example) = complete_example
         \<and> snd (toTable stale_example) = complete_example"
    using st [OF full [rule_format]] u by simp
  note cmp = export_frame [of compacted_example, THEN conjunct2, THEN conjunct2,
      THEN conjunct2, THEN conjunct2, THEN conjunct2, THEN conjunct2, THEN conjunct2,
      THEN conjunct2]
  have l2: "length [\<lparr>dims = [1, 1], elems = [Float 10]\<rparr>, \<lparr>dims = [1, 1], elems = [Float 20]\<rparr>]
              \<noteq> (3 :: nat)"
    by simp
  from cmp [THEN conjunct1, rule_format, OF e(1) compacted_lengths x l2]
  obtain r1 where r1: "lookup (rawXcorrs (snd (toDict compacted_example))) ''A'' = Inr r1"
    "repacked_entry compacted_example 3 ''A'' r1"
    by blast
  from cmp [THEN conjunct2, rule_format, OF e(2) lv compacted_lengths a x l2]
  obtain r2 where r2: "lookup (rawXcorrs (snd (toTable compacted_example))) ''A'' = Inr r2"
    "repacked_entry compacted_example 3 ''A'' r2"
    by blast
  show ?thesis
    using 1 ne x r1(1) r2(1) compacted_entry [OF r1(2)] compacted_entry [OF r2(2)] by simp
qed

text \<open>
  An export that changes the calibration: the compacted sequence of two correlations is
  three correlations long after toDict, and after toTable.
\<close>

theorem export_repacks_counterexample:
  "rawXcorrs compacted_example
      = [(''A'', [\<lparr>dims = [1, 1], elems = [Float 10]\<rparr>, \<lparr>dims = [1, 1], elems = [Float 20]\<rparr>])]
 \<and> rawXcorrs (snd (toDict compacted_example))
      = [(''A'', [\<lparr>dims = [1, 1], elems = [Float 10]\<rparr>, \<lparr>dims = [1, 1], elems = [NaN]\<rparr>,
                  \<lparr>dims = [1, 1], elems = [Float 20]\<rparr>])]
 \<and> rawXcorrs (snd (toTable compacted_example))
      = [(''A'', [\<lparr>dims = [1, 1], elems = [Float 10]\<rparr>, \<lparr>dims = [1, 1], elems = [NaN]\<rparr>,
                  \<lparr>dims = [1, 1], elems = [Float 20]\<rparr>])]
 \<and> snd (toDict compacted_example) \<noteq> compacted_example
 \<and> snd (toTable compacted_example) \<noteq> compacted_example"
proof -
  have 0: "rawXcorrs compacted_example
      = [(''A'', [\<lparr>dims = [1, 1], elems = [Float 10]\<rparr>, \<lparr>dims = [1, 1], elems = [Float 20]\<rparr>])]"
    by (simp add: compacted_example_def small_def)
  have 1: "rawXcorrs (snd (toDict compacted_example))
      = [(''A'', [\<lparr>dims = [1, 1], elems = [Float 10]\<rparr>, \<lparr>dims = [1, 1], elems = [NaN]\<rparr>,
                  \<lparr>dims = [1, 1], elems = [Float 20]\<rparr>])]"
    by code_simp
  have 2: "rawXcorrs (snd (toTable compacted_example))
      = [(''A'', [\<lparr>dims = [1, 1], elems = [Float 10]\<rparr>, \<lparr>dims = [1, 1], elems = [NaN]\<rparr>,
                  \<lparr>dims = [1, 1], elems = [Float 20]\<rparr>])]"
    by code_simp
  have "rawXcorrs (snd (toDict compacted_example)) \<noteq> rawXcorrs compacted_example"
    "rawXcorrs (snd (toTable compacted_example)) \<noteq> rawXcorrs compacted_example"
    unfolding 0 1 2 by simp_all
  then have "snd (toDict compacted_example) \<noteq> compacted_example"
    "snd (toTable compacted_example) \<noteq> compacted_example"
    by auto
  with 0 1 2 show ?thesis by simp
qed

lemma toTable_row_valid:
  assumes "toTable_row k s n c amp = (Inr r, c')"
  shows "r_amp r = amp \<and>
         r_valid r = PyInt (if lookup (valid c) amp = Inr True \<and> amp \<notin> set (badAmps c) then 1 else 0)"
proof -
  have f: "frame c c'" using toTable_row_frame [of c k s n amp] assms by simp
  obtain q c1 where q: "coerceCorrelations n c amp = (q, c1)" by (cases "coerceCorrelations n c amp")
  have c1: "c1 = c'" using assms q by (cases q) (auto simp: toTable_row_def split: sum.splits)
  show ?thesis using assms q c1 frame_fields(6,10) [OF f]
    by (cases q) (auto simp: toTable_row_def err_bind_Inr_iff split: sum.splits)
qed

lemma toTable_loop_valid:
  assumes "toTable_loop k s n amps c rows = (Inr rows', c')"
  shows "map r_amp rows' = map r_amp rows @ amps \<and>
         map r_valid rows' = map r_valid rows @
           map (\<lambda>amp. PyInt (if lookup (valid c) amp = Inr True \<and> amp \<notin> set (badAmps c)
                              then 1 else 0)) amps"
  using assms
proof (induction amps arbitrary: c rows)
  case Nil
  then show ?case by simp
next
  case (Cons amp amps)
  obtain q c1 where q: "toTable_row k s n c amp = (q, c1)" by (cases "toTable_row k s n c amp")
  with Cons.prems obtain r where r: "q = Inr r" by (cases q) simp_all
  have f: "frame c c1" using toTable_row_frame [of c k s n amp] q by simp
  have next_: "toTable_loop k s n amps c1 (rows @ [r]) = (Inr rows', c')"
    using Cons.prems q r by simp
  from Cons.IH [OF next_] toTable_row_valid [OF q [unfolded r]] frame_fields(6,10) [OF f]
  show ?case by simp
qed

text \<open>
  C6. At level AMP the table that toTable returns has one row for each amplifier of
  \<open>rawMeans\<close>, and its VALID column holds 1 for an amplifier exactly when \<open>valid[amp]\<close>
  is true and the amplifier is not in badAmps, and 0 otherwise.
\<close>

theorem toTable_valid_column:
  assumes "level c = ''AMP''" and "toTable c = (Inr (ampTable, detTable), c')"
  shows "AMPLIFIER ampTable = keys (rawMeans c)
       \<and> VALID ampTable =
           map (\<lambda>amp. PyInt (if lookup (valid c) amp = Inr True \<and> amp \<notin> set (badAmps c)
                              then 1 else 0)) (keys (rawMeans c))"
proof -
  from assms(2) obtain k s n where g: "getLengths c = Inr (k, s, n)"
    by (cases "getLengths c") (auto simp: toTable_def)
  obtain q c1 where q: "toTable_loop k s n (keys (rawMeans c)) (updateMetadata c) [] = (q, c1)"
    by (cases "toTable_loop k s n (keys (rawMeans c)) (updateMetadata c) []")
  with assms g obtain rows where rows: "q = Inr rows"
    by (cases q) (simp_all add: toTable_def)
  have "AMPLIFIER ampTable = map r_amp rows \<and> VALID ampTable = map r_valid rows"
    using assms g q rows
    by (auto simp: toTable_def Let_def err_bind_Inr_iff split: if_splits)
  with toTable_loop_valid [OF q [unfolded rows]] show ?thesis by simp
qed

lemma flagged_toTable: "\<exists>a d c'. toTable flagged_example = (Inr (a, d), c')"
proof -
  have "isl (fst (toTable flagged_example)) = False" by code_simp
  then obtain t c' where "toTable flagged_example = (Inr t, c')"
    by (cases "toTable flagged_example"; cases "fst (toTable flagged_example)") auto
  then show ?thesis by (cases t) auto
qed

theorem toTable_valid_column_witness:
  "level flagged_example = ''AMP''
 \<and> valid flagged_example = [(''A'', True), (''B'', True), (''C'', False)]
 \<and> badAmps flagged_example = [''B'']
 \<and> (\<exists>a d c'. toTable flagged_example = (Inr (a, d), c')
       \<and> AMPLIFIER a = [''A'', ''B'', ''C'']
       \<and> VALID a = [PyInt 1, PyInt 0, PyInt 0])"
proof -
  obtain a d c' where t: "toTable flagged_example = (Inr (a, d), c')"
    using flagged_toTable by blast
  have l: "level flagged_example = ''AMP''" by (simp add: flagged_example_def)
  from toTable_valid_column [OF l t]
  have "AMPLIFIER a = [''A'', ''B'', ''C''] \<and> VALID a = [PyInt 1, PyInt 0, PyInt 0]"
    by (simp add: flagged_example_def keys_def lookup_def)
  with t l show ?thesis by (auto simp: flagged_example_def)
qed
subsection \<open>The round trip through toDict and fromDict\<close>









lemma sqrt_down_eq:
  "m * m \<le> n \<Longrightarrow> n < Suc m * Suc m \<Longrightarrow> m \<le> r \<Longrightarrow> sqrt_down n r = m"
proof (induction r)
  case 0
  then show ?case by simp
next
  case (Suc r)
  show ?case
  proof (cases "m = Suc r")
    case True
    with Suc.prems show ?thesis by simp
  next
    case False
    with Suc.prems have le: "m \<le> r" by simp
    then have "Suc m \<le> Suc r" by simp
    then have "Suc m * Suc m \<le> Suc r * Suc r" by (intro mult_le_mono)
    with Suc.prems(2) have "\<not> Suc r * Suc r \<le> n" by linarith
    with Suc.IH [OF Suc.prems(1,2) le] show ?thesis by simp
  qed
qed


lemma sqrt_down_floor: "sqrt_down n n = nat \<lfloor>sqrt (real n)\<rfloor>"
proof -
  let ?m = "nat \<lfloor>sqrt (real n)\<rfloor>"
  have m: "real ?m \<le> sqrt (real n)" "sqrt (real n) < real ?m + 1"
    by (simp_all add: of_nat_nat)
  have "(real ?m)\<^sup>2 \<le> (sqrt (real n))\<^sup>2"
    using m(1) by (intro power_mono) simp_all
  then have "real (?m * ?m) \<le> real n" by (simp add: power2_eq_square)
  then have 1: "?m * ?m \<le> n" by (simp only: of_nat_le_iff)
  have "(sqrt (real n))\<^sup>2 < (real ?m + 1)\<^sup>2"
    using m(2) by (intro power_strict_mono) simp_all
  then have "real n < real (Suc ?m * Suc ?m)" by (simp add: power2_eq_square algebra_simps)
  then have 2: "n < Suc ?m * Suc ?m" by (simp only: of_nat_less_iff)
  have "?m \<le> ?m * ?m" by (cases "?m") simp_all
  then have 3: "?m \<le> n" using 1 by (rule order_trans)
  show ?thesis using sqrt_down_eq [OF 1 2 3] .
qed




















text \<open>
  No other correlation arrays make that shape work: whenever \<open>smallLength\<close> is not the
  square of its truncated root, a calibration with an observation and an amplifier in
  \<open>rawXcorrs\<close> does not survive the round trip. toDict persists \<open>nObs * smallLength\<close>
  elements for the amplifier, and fromDict reshapes them to \<open>nObs\<close> arrays of \<open>side\<close> by
  \<open>side\<close>.
\<close>

lemma err_map_Inr_all2:
  "err_map f xs = Inr ys \<Longrightarrow> list_all2 (\<lambda>x y. f x = Inr y) xs ys"
proof (induction xs arbitrary: ys)
  case Nil
  then show ?case by simp
next
  case (Cons x xs)
  then show ?case by (auto split: sum.splits)
qed

lemma coerceCorrelations_nonempty:
  "rawXcorrs c \<noteq> [] \<Longrightarrow> rawXcorrs (snd (coerceCorrelations n c amp)) \<noteq> []"
  by (cases "rawXcorrs c")
     (auto simp: coerceCorrelations_def repackCorrelations_def Let_def split: sum.splits)

lemma toDict_loop_nonempty:
  "rawXcorrs c \<noteq> [] \<Longrightarrow> rawXcorrs (snd (toDict_loop n amps c)) \<noteq> []"
proof (induction amps arbitrary: c)
  case Nil
  then show ?case by simp
next
  case (Cons amp amps)
  obtain r c1 where r: "coerceCorrelations n c amp = (r, c1)"
    by (cases "coerceCorrelations n c amp")
  then have "rawXcorrs c1 \<noteq> []"
    using coerceCorrelations_nonempty [OF Cons.prems, of n amp] by simp
  then show ?case using r Cons.IH [of c1] Cons.prems by (cases r) simp_all
qed

lemma flattened_length:
  "flattened xs t = Inr ys \<Longrightarrow> 0 \<le> t \<Longrightarrow> int (length ys) = t"
  by (auto simp: flattened_def np_ravel_def np_size_def err_bind_Inr_iff split: if_splits)

lemma roundTrip_needs_square:
  assumes gl: "getLengths x = Inr (k, s, n)" and n: "0 < n" and ne: "rawXcorrs x \<noteq> []"
    and s: "0 \<le> s" and side: "int_sqrt s = Inr side" and sq: "int (side * side) \<noteq> s"
  shows "\<exists>e. roundTrip x = Inl e"
proof (cases "fst (toDict x)")
  case (Inl e)
  then show ?thesis by (simp add: roundTrip_def)
next
  case (Inr d)
  obtain q x' where q: "toDict_loop n (keys (rawXcorrs x)) (updateMetadata x) = (q, x')"
    by (cases "toDict_loop n (keys (rawXcorrs x)) (updateMetadata x)")
  have "rawXcorrs (updateMetadata x) \<noteq> []" using ne by simp
  from toDict_loop_nonempty [OF this, of n "keys (rawXcorrs x)"]
  have ne': "rawXcorrs x' \<noteq> []" using q by simp
  from Inr q gl have md: "d_metadata d = calib_metadata (updateMetadata x)"
    and fields: "d_expIdMask d = Some (expIdMask x)" "d_rawMeans d = Some (rawMeans x)"
      "d_rawVariances d = Some (rawVariances x)"
    and rx: "err_map (\<lambda>(amp, xs). err_bind (flattened xs (int n * s)) (\<lambda>ys. Inr (amp, ys)))
               (rawXcorrs x') = Inr (d_rawXcorrs d)"
    by (cases q; auto simp: toDict_def Let_def getMetadata_def err_bind_Inr_iff)+
  from ne' obtain amp xs rest where x': "rawXcorrs x' = (amp, xs) # rest"
    by (cases "rawXcorrs x'") auto
  from err_map_Inr_all2 [OF rx] x'
  obtain ys rest' where dr: "d_rawXcorrs d = (amp, ys) # rest'"
    and fl: "flattened xs (int n * s) = Inr ys"
    by (auto simp: list_all2_Cons1 err_bind_Inr_iff)
  have len: "int (length ys) = int n * s"
    using flattened_length [OF fl] s by simp
  have "\<not> (\<exists>y. fromDict d = Inr y)"
  proof
    assume "\<exists>y. fromDict d = Inr y"
    then obtain y where y: "fromDict d = Inr y" by blast
    let ?md = "\<lparr>OBSTYPE = calib_OBSTYPE, bfk_VERSION = calib_VERSION, LEVEL = Some (level x),
               KERNEL_DX = Some (fst (shape x)), KERNEL_DY = Some (snd (shape x))\<rparr>"
    have md': "d_metadata d = ?md" using md by (simp add: updateMetadata_header)
    let ?c0 = "(setMetadata (init (level x)) ?md)\<lparr>shape := shape x, expIdMask := expIdMask x,
                  rawMeans := rawMeans x, rawVariances := rawVariances x\<rparr>"
    have "getLengths ?c0 = getLengths x"
      by (rule getLengths_cong) (simp_all add: init_def setMetadata_def)
    then have g0: "getLengths ?c0 = Inr (k, s, n)" using gl by simp
    have ver: "fromDict_version d = Inr (expIdMask x, rawMeans x, rawVariances x)"
      using md' fields by (simp add: fromDict_version_def calib_VERSION_def)
    from y have "\<exists>r. reshaped ys [n, side, side] = Inr r"
      unfolding fromDict_def
      using md' ver g0 side dr
      by (auto simp: Let_def err_bind_Inr_iff split: if_splits sum.splits)
    then have "n * side * side = length ys"
      by (auto simp: reshaped_def np_reshape_def np_array1_def np_size_def split: if_splits)
    then have "int n * int (side * side) = int n * s" using len by (simp flip: of_nat_mult add: mult.assoc)
    with n sq show False by simp
  qed
  then obtain e where "fromDict d = Inl e" by (cases "fromDict d") auto
  with Inr show ?thesis by (simp add: roundTrip_def)
qed

subsection \<open>makeDetectorKernelFromAmpwiseKernels\<close>

text \<open>
  C8, where the code departs from it. Whatever the clipped mean returns, five kernels of
  3 by 4 make the method raise IndexError and store nothing, and five kernels of 3 by 3
  give a detector kernel whose element at row \<open>i\<close> and column \<open>j\<close> is the clipped mean
  of the amplifiers' elements at row \<open>j\<close> and column \<open>i\<close>: the kernel is indexed
  through \<^verbatim>\<open>np.transpose\<close> with the axes of the untransposed one.
\<close>

theorem detector_kernel_transposed:
  "makeDetectorKernelFromAmpwiseKernels meanclip outlier_example ''R22_S11'' []
     = (Inl IndexError, outlier_example)
 \<and> detKernels (snd (makeDetectorKernelFromAmpwiseKernels meanclip skew_example ''R22_S11'' []))
     = [(''R22_S11'',
         \<lparr>dims = [3, 3],
          elems = map (\<lambda>v. meanclip [Float v, Float v, Float v, Float v, Float (v + 1000)])
                    [0, 3, 6, 1, 4, 7, 2, 5, 8]\<rparr>)]"
  by (simp add: makeDetectorKernelFromAmpwiseKernels_def outlier_example_def skew_example_def
      init_def np_array_def kernel_def ramp_def upt_rec [of _ "numeral _"] eval_nat_numeral)

end
